theory Spec2Isabelle
  imports Main "HOL-Library.Word" "HOL-Library.Sublist" "HOL-Library.AList"
begin

unbundle bit_operations_syntax

section \<open>Shared data: bytes, errors, time\<close>

type_synonym u8 = "8 word"

text \<open>
  Go error values. \<open>ErrClosed\<close> is the breaker's distinguished error,
  \<open>ErrNotFound\<close> the state store's lookup miss, \<open>ErrAddressLength\<close> the
  error of the distance functions (\<^verbatim>\<open>errors.New("address length must match")\<close>);
  \<open>ErrOther\<close> stands for every other error value, named by its message.
\<close>

datatype error = ErrClosed | ErrNotFound | ErrAddressLength | ErrOther string

section \<open>The overlay metric (package swarm)\<close>

subsection \<open>Proximity\<close>

text \<open>
  The bit loop of \<^verbatim>\<open>Proximity\<close>:
  \<^verbatim>\<open>for j := uint8(0); j < m; j++ { if (oxo>>(7-j))&0x01 != 0 { return i*8 + j } }\<close>.
  \<open>Some r\<close> is the \<^verbatim>\<open>return r\<close> inside the loop, \<open>None\<close> is the loop
  running to its end. All counters are \<^verbatim>\<open>uint8\<close>.
\<close>

function proximityBits :: "u8 \<Rightarrow> u8 \<Rightarrow> u8 \<Rightarrow> u8 \<Rightarrow> u8 option" where
  "proximityBits m oxo i j =
     (if j < m then
        (if (drop_bit (unat (7 - j)) oxo) AND 1 \<noteq> 0 then Some (i * 8 + j)
         else proximityBits m oxo i (j + 1))
      else None)"
  by pat_completeness auto
termination
proof (relation "measure (\<lambda>(m, oxo, i, j). unat m - unat j)")
  show "wf (measure (\<lambda>(m :: u8, oxo :: u8, i :: u8, j :: u8). unat m - unat j))"
    by simp
next
  fix m oxo i j :: u8
  assume lt: "j < m"
  then have l: "unat j < unat m"
    by (simp add: word_less_nat_alt)
  have "unat m < 2 ^ 8"
    using unsigned_less [of m, where 'a = nat] by simp
  with l have "unat j + unat (1 :: u8) < 2 ^ LENGTH(8)"
    by simp
  then have "unat (j + 1) = unat j + unat (1 :: u8)"
    by (simp only: unat_add_lem)
  with l show "((m, oxo, i, j + 1), (m, oxo, i, j))
      \<in> measure (\<lambda>(m, oxo, i, j). unat m - unat j)"
    by simp
qed

declare proximityBits.simps [simp del]

text \<open>
  The byte loop: \<^verbatim>\<open>for i := uint8(0); i < b; i++ { oxo := one[i] ^ other[i]; ... }\<close>
  followed by \<^verbatim>\<open>return po\<close>. An index outside a slice is a run-time panic in Go;
  the model returns \<open>None\<close> for it and \<open>Some r\<close> for a returned value \<open>r\<close>.
\<close>

function proximityBytes :: "u8 \<Rightarrow> u8 list \<Rightarrow> u8 list \<Rightarrow> u8 \<Rightarrow> u8 \<Rightarrow> u8 option" where
  "proximityBytes po one other b i =
     (if i < b then
        (if unat i < length one \<and> unat i < length other then
           (case proximityBits 8 (one ! unat i XOR other ! unat i) i 0 of
              Some r \<Rightarrow> Some r
            | None \<Rightarrow> proximityBytes po one other b (i + 1))
         else None)
      else Some po)"
  by pat_completeness auto
termination
proof (relation "measure (\<lambda>(po, one, other, b, i). unat b - unat i)")
  show "wf (measure (\<lambda>(po :: u8, one :: u8 list, other :: u8 list, b :: u8, i :: u8).
      unat b - unat i))"
    by simp
next
  fix po b i :: u8 and one other :: "u8 list"
  assume lt: "i < b"
  then have l: "unat i < unat b"
    by (simp add: word_less_nat_alt)
  have "unat b < 2 ^ 8"
    using unsigned_less [of b, where 'a = nat] by simp
  with l have "unat i + unat (1 :: u8) < 2 ^ LENGTH(8)"
    by simp
  then have "unat (i + 1) = unat i + unat (1 :: u8)"
    by (simp only: unat_add_lem)
  with l show "((po, one, other, b, i + 1), (po, one, other, b, i))
      \<in> measure (\<lambda>(po, one, other, b, i). unat b - unat i)"
    by simp
qed

declare proximityBytes.simps [simp del]

text \<open>
  The window \<^verbatim>\<open>b\<close>: \<^verbatim>\<open>po/8 + 1\<close>, lowered to \<^verbatim>\<open>uint8(len(one))\<close> and
  \<^verbatim>\<open>uint8(len(other))\<close> (the conversion truncates the length to 8 bits).
\<close>

definition proximityWindow :: "u8 \<Rightarrow> u8 list \<Rightarrow> u8 list \<Rightarrow> u8" where
  "proximityWindow po one other =
     (let b = po div 8 + 1;
          b = (if b > of_nat (length one) then of_nat (length one) else b);
          b = (if b > of_nat (length other) then of_nat (length other) else b)
      in b)"

text \<open>
  \<^verbatim>\<open>Proximity\<close> and \<^verbatim>\<open>ExtendedProximity\<close> have the same body and differ in the
  constant only. The constants \<^verbatim>\<open>MaxPO\<close> and \<^verbatim>\<open>ExtendedPO\<close> (both
  \<^verbatim>\<open>uint8\<close>) are declared elsewhere in package swarm and are taken as the first
  argument: what is proved holds for every value of them.
\<close>

definition Proximity :: "u8 \<Rightarrow> u8 list \<Rightarrow> u8 list \<Rightarrow> u8 option" where
  "Proximity MaxPO one other =
     proximityBytes MaxPO one other (proximityWindow MaxPO one other) 0"

definition ExtendedProximity :: "u8 \<Rightarrow> u8 list \<Rightarrow> u8 list \<Rightarrow> u8 option" where
  "ExtendedProximity ExtendedPO one other =
     proximityBytes ExtendedPO one other (proximityWindow ExtendedPO one other) 0"

subsection \<open>Distance\<close>

text \<open>
  \<^verbatim>\<open>DistanceRaw\<close>: after the length check, \<^verbatim>\<open>c[i] = x[i] ^ y[i]\<close> for every
  index of \<^verbatim>\<open>x\<close>.
\<close>

definition DistanceRaw :: "u8 list \<Rightarrow> u8 list \<Rightarrow> error + u8 list" where
  "DistanceRaw x y =
     (if length x \<noteq> length y then Inl ErrAddressLength
      else Inr (map2 (XOR) x y))"

text \<open>\<^verbatim>\<open>big.Int.SetBytes\<close>: the bytes read as a big-endian unsigned integer.\<close>

definition SetBytes :: "u8 list \<Rightarrow> int" where
  "SetBytes buf = foldl (\<lambda>n b. n * 256 + uint b) 0 buf"

definition Distance :: "u8 list \<Rightarrow> u8 list \<Rightarrow> error + int" where
  "Distance x y =
     (case DistanceRaw x y of
        Inl err \<Rightarrow> Inl err
      | Inr distanceBytes \<Rightarrow> Inr (SetBytes distanceBytes))"

text \<open>
  The loop of \<^verbatim>\<open>DistanceCmp\<close>, \<^verbatim>\<open>for i := range a\<close>, from index \<open>i\<close> on. It
  runs only after the length check, so \<^verbatim>\<open>x[i]\<close> and \<^verbatim>\<open>y[i]\<close> exist for every
  index of \<^verbatim>\<open>a\<close>.
\<close>

function distanceCmpLoop :: "u8 list \<Rightarrow> u8 list \<Rightarrow> u8 list \<Rightarrow> nat \<Rightarrow> int" where
  "distanceCmpLoop a x y i =
     (if i < length a then
        (let dx = x ! i XOR a ! i;
             dy = y ! i XOR a ! i
         in if dx = dy then distanceCmpLoop a x y (i + 1)
            else if dx < dy then 1
            else - 1)
      else 0)"
  by pat_completeness auto
termination
  by (relation "measure (\<lambda>(a, x, y, i). length a - i)") auto

declare distanceCmpLoop.simps [simp del]

definition DistanceCmp :: "u8 list \<Rightarrow> u8 list \<Rightarrow> u8 list \<Rightarrow> error + int" where
  "DistanceCmp a x y =
     (if length a \<noteq> length x \<or> length a \<noteq> length y then Inl ErrAddressLength
      else Inr (distanceCmpLoop a x y 0))"

section \<open>Time (Go's package time)\<close>

text \<open>
  A \<^verbatim>\<open>time.Time\<close> is modelled by its distance in nanoseconds from the zero instant
  \<^verbatim>\<open>time.Time{}\<close>, a \<^verbatim>\<open>time.Duration\<close> by its \<^verbatim>\<open>int64\<close> number of
  nanoseconds. \<^verbatim>\<open>t.Sub(u)\<close> is the difference, saturated at the least and the greatest
  duration; arithmetic on durations wraps around at 64 bits.
\<close>

type_synonym time = int
type_synonym duration = int

definition minDuration :: duration where
  "minDuration = - (2 ^ 63)"

definition maxDuration :: duration where
  "maxDuration = 2 ^ 63 - 1"

definition int64 :: "int \<Rightarrow> int" where
  "int64 n = (n + 2 ^ 63) mod 2 ^ 64 - 2 ^ 63"

definition IsZero :: "time \<Rightarrow> bool" where
  "IsZero t = (t = 0)"

definition Sub :: "time \<Rightarrow> time \<Rightarrow> duration" where
  "Sub t u =
     (if t - u < minDuration then minDuration
      else if maxDuration < t - u then maxDuration
      else t - u)"

definition TimeAdd :: "time \<Rightarrow> duration \<Rightarrow> time" where
  "TimeAdd t d = t + d"

definition Minute :: duration where
  "Minute = 60 * 1000000000"

definition Hour :: duration where
  "Hour = 60 * Minute"

section \<open>The circuit breaker (package breaker)\<close>

text \<open>The defaults \<^verbatim>\<open>limit\<close>, \<^verbatim>\<open>failInterval\<close>, \<^verbatim>\<open>maxBackoff\<close> and
  \<^verbatim>\<open>backoff\<close> of the package; the struct fields below carry the plain names.\<close>

definition limit_default :: int where
  "limit_default = 100"

definition failInterval_default :: duration where
  "failInterval_default = 30 * Minute"

definition maxBackoff_default :: duration where
  "maxBackoff_default = Hour"

definition backoff_default :: duration where
  "backoff_default = 2 * Minute"

text \<open>
  The struct \<^verbatim>\<open>breaker\<close> without its mutex: every method holds the mutex from its
  first to its last statement, so a method is one atomic step on this record. The
  counters are Go \<^verbatim>\<open>int\<close>s; a call that passes \<open>beforef\<close> has
  \<open>consFailedCalls\<close> below \<open>limit\<close> or at zero, so the one increment in
  \<open>afterf\<close> stays in range and is written without wrap-around.
\<close>

record breaker =
  limit :: int
  consFailedCalls :: int
  firstFailedTimestamp :: time
  closedTimestamp :: time
  backoff :: duration
  maxBackoff :: duration
  failInterval :: duration

record Options =
  Limit :: int
  FailInterval :: duration
  StartBackoff :: duration
  MaxBackoff :: duration

definition NewBreaker :: "Options \<Rightarrow> breaker" where
  "NewBreaker o' =
     (let b = \<lparr> limit = Limit o', consFailedCalls = 0, firstFailedTimestamp = 0,
                 closedTimestamp = 0, backoff = StartBackoff o',
                 maxBackoff = MaxBackoff o', failInterval = FailInterval o' \<rparr>;
          b = (if Limit o' = 0 then b\<lparr>limit := limit_default\<rparr> else b);
          b = (if FailInterval o' = 0 then b\<lparr>failInterval := failInterval_default\<rparr> else b);
          b = (if MaxBackoff o' = 0 then b\<lparr>maxBackoff := maxBackoff_default\<rparr> else b);
          b = (if StartBackoff o' = 0 then b\<lparr>backoff := backoff_default\<rparr> else b)
      in b)"

definition resetFailed :: "breaker \<Rightarrow> breaker" where
  "resetFailed b = b\<lparr>consFailedCalls := 0, firstFailedTimestamp := 0\<rparr>"

text \<open>
  \<open>beforef now b\<close>: the returned error (\<open>None\<close> is \<^verbatim>\<open>nil\<close>) and the breaker
  afterwards. \<open>now\<close> is the reading of \<^verbatim>\<open>timeNow()\<close>; on every path through
  \<^verbatim>\<open>beforef\<close> the clock is read at most once (after the reset of the first branch
  the first-failure timestamp is zero, and the second condition stops at
  \<^verbatim>\<open>IsZero\<close>). The early \<^verbatim>\<open>return ErrClosed\<close> is the first branch below; on every
  other path the two updates run in the order of the source.
\<close>

definition beforef :: "time \<Rightarrow> breaker \<Rightarrow> error option \<times> breaker" where
  "beforef now b =
     (if consFailedCalls b \<ge> limit b \<and>
         (IsZero (closedTimestamp b) \<or> Sub now (closedTimestamp b) < backoff b)
      then (Some ErrClosed, b)
      else
        (let b = (if consFailedCalls b \<ge> limit b then
                    (let b = resetFailed b;
                         newBackoff = int64 (backoff b * 2)
                     in if newBackoff \<le> maxBackoff b then b\<lparr>backoff := newBackoff\<rparr>
                        else b\<lparr>backoff := maxBackoff b\<rparr>)
                  else b);
             b = (if \<not> IsZero (firstFailedTimestamp b) \<and>
                     Sub now (firstFailedTimestamp b) \<ge> failInterval b
                  then resetFailed b else b)
         in (None, b)))"

text \<open>
  \<open>afterf now err b\<close>: \<open>err\<close> is the result of the operation. Both clock readings
  of the failure branch happen inside one critical section and are modelled by the
  one value \<open>now\<close>.
\<close>

definition afterf :: "time \<Rightarrow> error option \<Rightarrow> breaker \<Rightarrow> error option \<times> breaker" where
  "afterf now err b =
     (case err of
        Some e \<Rightarrow>
          (let b = (if consFailedCalls b = 0 then b\<lparr>firstFailedTimestamp := now\<rparr> else b);
               b = b\<lparr>consFailedCalls := consFailedCalls b + 1\<rparr>;
               b = (if consFailedCalls b = limit b then b\<lparr>closedTimestamp := now\<rparr> else b)
           in (Some e, b))
      | None \<Rightarrow> (None, resetFailed b))"

text \<open>
  \<open>Execute\<close>. The supplied operation \<open>f\<close> acts on the world outside the breaker,
  of type \<open>'w\<close>: it returns its error and the world after the call. The mockable
  clock \<^verbatim>\<open>timeNow\<close> reads the time off the world, so time can pass while the
  operation runs. The result is the returned error, the breaker and the world;
  the world changes only by an invocation of \<open>f\<close>.
\<close>

definition Execute ::
  "('w \<Rightarrow> time) \<Rightarrow> ('w \<Rightarrow> error option \<times> 'w) \<Rightarrow> breaker \<Rightarrow> 'w \<Rightarrow> error option \<times> breaker \<times> 'w"
where
  "Execute timeNow f b w =
     (case beforef (timeNow w) b of
        (Some err, b) \<Rightarrow> (Some err, b, w)
      | (None, b) \<Rightarrow>
          (case f w of
             (r, w') \<Rightarrow> (case afterf (timeNow w') r b of (err, b) \<Rightarrow> (err, b, w'))))"

definition ClosedUntil :: "('w \<Rightarrow> time) \<Rightarrow> breaker \<Rightarrow> 'w \<Rightarrow> time \<times> breaker \<times> 'w" where
  "ClosedUntil timeNow b w =
     (if consFailedCalls b \<ge> limit b then (TimeAdd (closedTimestamp b) (backoff b), b, w)
      else (timeNow w, b, w))"

text \<open>
  A history of one breaker, run in order: calls of \<open>Execute\<close> and
  \<open>ClosedUntil\<close>, and between them steps of the world outside (time passes, whatever
  else happens), which leave the breaker alone.
\<close>

datatype 'w call =
  CallExecute "'w \<Rightarrow> error option \<times> 'w"
| CallClosedUntil
| WorldStep "'w \<Rightarrow> 'w"

fun runCall :: "('w \<Rightarrow> time) \<Rightarrow> 'w call \<Rightarrow> breaker \<times> 'w \<Rightarrow> breaker \<times> 'w" where
  "runCall timeNow (CallExecute f) (b, w) = snd (Execute timeNow f b w)"
| "runCall timeNow CallClosedUntil (b, w) = snd (ClosedUntil timeNow b w)"
| "runCall timeNow (WorldStep g) (b, w) = (b, g w)"

fun runCalls :: "('w \<Rightarrow> time) \<Rightarrow> 'w call list \<Rightarrow> breaker \<times> 'w \<Rightarrow> breaker \<times> 'w" where
  "runCalls timeNow [] bw = bw"
| "runCalls timeNow (c # cs) bw = runCalls timeNow cs (runCall timeNow c bw)"

section \<open>The blocklist (package blocklist)\<close>

subsection \<open>The state store\<close>

text \<open>
  The stored value: \<^verbatim>\<open>entry\<close>, with the duration kept as text.
\<close>

record entry =
  Timestamp :: time
  Duration :: string

text \<open>
  Modelled from the spec: the persistent store \<^verbatim>\<open>storage.StateStorer\<close>, an
  interface whose implementations lie outside the packages verified here. The spec
  gives its contract: \<^verbatim>\<open>get(key)\<close> yields the value or the not-found
  error, \<^verbatim>\<open>put\<close> and \<^verbatim>\<open>delete\<close> succeed or fail with an error, and
  \<^verbatim>\<open>iterate(keyPrefix, visit)\<close> visits the entries whose key starts with the prefix
  until the visitor asks to stop or fails. The model keeps the entries in iteration
  order, one per key as \<open>Put\<close> and \<open>Delete\<close> leave them, and carries for every
  operation the persistence failure (encoding, I/O) it is going to report, if any.
\<close>

record StateStorer =
  items :: "(string \<times> entry) list"
  getErr :: "string \<Rightarrow> error option"
  putErr :: "string \<Rightarrow> error option"
  deleteErr :: "string \<Rightarrow> error option"
  iterateErr :: "error option"

text \<open>Modelled from the spec: \<^verbatim>\<open>get(key) -> value or not-found-error\<close>.\<close>

definition Get :: "string \<Rightarrow> StateStorer \<Rightarrow> (error + entry) \<times> StateStorer" where
  "Get key s =
     (case getErr s key of
        Some err \<Rightarrow> (Inl err, s)
      | None \<Rightarrow>
          (case map_of (items s) key of
             None \<Rightarrow> (Inl ErrNotFound, s)
           | Some e \<Rightarrow> (Inr e, s)))"

text \<open>Modelled from the spec: \<^verbatim>\<open>put(key, value) -> success or error\<close>.\<close>

definition Put :: "string \<Rightarrow> entry \<Rightarrow> StateStorer \<Rightarrow> error option \<times> StateStorer" where
  "Put key e s =
     (case putErr s key of
        Some err \<Rightarrow> (Some err, s)
      | None \<Rightarrow> (None, s\<lparr>items := AList.update key e (items s)\<rparr>))"

text \<open>Modelled from the spec: \<^verbatim>\<open>delete(key) -> success or error\<close>.\<close>

definition Delete :: "string \<Rightarrow> StateStorer \<Rightarrow> error option \<times> StateStorer" where
  "Delete key s =
     (case deleteErr s key of
        Some err \<Rightarrow> (Some err, s)
      | None \<Rightarrow> (None, s\<lparr>items := AList.delete key (items s)\<rparr>))"

text \<open>
  Modelled from the spec: \<^verbatim>\<open>iterate(keyPrefix, visit(key, value) -> (stop, error))\<close>.
  The visitor is a closure: \<open>'a\<close> is the state it captures, and it may use the
  store. An error of the visitor ends the iteration and is the result; the store's
  own failure, if it has one, is reported once the visits are over.
\<close>

fun iterateLoop ::
  "(string \<Rightarrow> entry \<Rightarrow> 'a \<Rightarrow> StateStorer \<Rightarrow> (bool \<times> error option) \<times> 'a \<times> StateStorer) \<Rightarrow>
   (string \<times> entry) list \<Rightarrow> 'a \<Rightarrow> StateStorer \<Rightarrow> error option \<times> 'a \<times> StateStorer"
where
  "iterateLoop visit [] acc s = (None, acc, s)"
| "iterateLoop visit ((k, v) # kvs) acc s =
     (case visit k v acc s of
        ((stop, Some err), acc, s) \<Rightarrow> (Some err, acc, s)
      | ((stop, None), acc, s) \<Rightarrow>
          (if stop then (None, acc, s) else iterateLoop visit kvs acc s))"

text \<open>
  Modelled from the spec: the entries visited are those whose key starts with the
  given prefix.
\<close>

definition Iterate ::
  "string \<Rightarrow>
   (string \<Rightarrow> entry \<Rightarrow> 'a \<Rightarrow> StateStorer \<Rightarrow> (bool \<times> error option) \<times> 'a \<times> StateStorer) \<Rightarrow>
   'a \<Rightarrow> StateStorer \<Rightarrow> error option \<times> 'a \<times> StateStorer"
where
  "Iterate pfx visit acc s =
     (case iterateLoop visit (filter (\<lambda>(k, v). prefix pfx k) (items s)) acc s of
        (Some err, acc, s) \<Rightarrow> (Some err, acc, s)
      | (None, acc, s) \<Rightarrow> (iterateErr s, acc, s))"

subsection \<open>Functions of other packages\<close>

text \<open>
  The blocklist calls \<^verbatim>\<open>time.ParseDuration\<close> and \<^verbatim>\<open>Duration.String\<close> of Go's
  library and \<^verbatim>\<open>Address.String\<close> and \<^verbatim>\<open>ParseHexAddress\<close> of package swarm.
  They are parameters of the model: every theorem holds for whatever these four
  functions compute.
\<close>

record ext =
  ParseDuration :: "string \<Rightarrow> error + duration"
  DurationString :: "duration \<Rightarrow> string"
  AddressString :: "u8 list \<Rightarrow> string"
  ParseHexAddress :: "string \<Rightarrow> error + u8 list"

record Peer =
  Address :: "u8 list"

subsection \<open>The blocklist\<close>

definition keyPrefix :: string where
  "keyPrefix = ''blocklist-''"

definition generateKey :: "ext \<Rightarrow> u8 list \<Rightarrow> string" where
  "generateKey x overlay = keyPrefix @ AddressString x overlay"

text \<open>\<^verbatim>\<open>strings.TrimPrefix\<close>, then \<^verbatim>\<open>ParseHexAddress\<close>.\<close>

definition unmarshalKey :: "ext \<Rightarrow> string \<Rightarrow> error + u8 list" where
  "unmarshalKey x s =
     (let addr = (if prefix keyPrefix s then drop (length keyPrefix) s else s)
      in ParseHexAddress x addr)"

text \<open>
  \<open>get\<close> returns the triple \<^verbatim>\<open>(timestamp, duration, err)\<close> as the Go function
  does: on every error the timestamp is zero and the duration is \<open>-1\<close>.
\<close>

definition get :: "ext \<Rightarrow> string \<Rightarrow> StateStorer \<Rightarrow> (time \<times> duration \<times> error option) \<times> StateStorer" where
  "get x key s =
     (case Get key s of
        (Inl err, s) \<Rightarrow> ((0, - 1, Some err), s)
      | (Inr e, s) \<Rightarrow>
          (case ParseDuration x (Duration e) of
             Inl err \<Rightarrow> ((0, - 1, Some err), s)
           | Inr duration \<Rightarrow> ((Timestamp e, duration, None), s)))"

text \<open>
  In the three operations \<open>now\<close> is the reading of \<^verbatim>\<open>timeNow()\<close> during the
  call (\<open>Peers\<close> reads the clock at every entry it visits; one call is modelled at
  one instant). The result of \<open>Exists\<close> is the pair \<^verbatim>\<open>(bool, error)\<close> and the store
  afterwards; the result of \<^verbatim>\<open>Delete\<close> is dropped, as \<^verbatim>\<open>_ = b.store.Delete(key)\<close>
  drops it.
\<close>

definition Exists :: "ext \<Rightarrow> time \<Rightarrow> u8 list \<Rightarrow> StateStorer \<Rightarrow> (bool \<times> error option) \<times> StateStorer" where
  "Exists x now overlay s =
     (let key = generateKey x overlay
      in case get x key s of
           ((timestamp, duration, Some err), s) \<Rightarrow>
             (if err = ErrNotFound then ((False, None), s) else ((False, Some err), s))
         | ((timestamp, duration, None), s) \<Rightarrow>
             (if Sub now timestamp > duration \<and> duration \<noteq> 0
              then (case Delete key s of (_, s) \<Rightarrow> ((False, None), s))
              else ((True, None), s)))"

definition Add :: "ext \<Rightarrow> time \<Rightarrow> u8 list \<Rightarrow> duration \<Rightarrow> StateStorer \<Rightarrow> error option \<times> StateStorer" where
  "Add x now overlay duration s =
     (let key = generateKey x overlay
      in case get x key s of
           ((_, d, err), s) \<Rightarrow>
             (if err \<noteq> None \<and> err \<noteq> Some ErrNotFound then (err, s)
              else
                (let duration = (if duration < d \<and> duration \<noteq> 0 \<or> d = 0 then d else duration)
                 in Put key \<lparr> Timestamp = now, Duration = DurationString x duration \<rparr> s)))"

text \<open>The visitor that \<open>Peers\<close> hands to \<open>Iterate\<close>; it appends to \<^verbatim>\<open>peers\<close>.\<close>

definition peersVisit ::
  "ext \<Rightarrow> time \<Rightarrow> string \<Rightarrow> entry \<Rightarrow> Peer list \<Rightarrow> StateStorer \<Rightarrow>
   (bool \<times> error option) \<times> Peer list \<times> StateStorer"
where
  "peersVisit x now k v peers s =
     (if \<not> prefix keyPrefix k then ((True, None), peers, s)
      else
        (case unmarshalKey x k of
           Inl err \<Rightarrow> ((True, Some err), peers, s)
         | Inr addr \<Rightarrow>
             (case get x k s of
                ((t, d, Some err), s) \<Rightarrow> ((True, Some err), peers, s)
              | ((t, d, None), s) \<Rightarrow>
                  (if Sub now t > d \<and> d \<noteq> 0 then ((False, None), peers, s)
                   else ((False, None), peers @ [\<lparr> Address = addr \<rparr>], s)))))"

definition Peers :: "ext \<Rightarrow> time \<Rightarrow> StateStorer \<Rightarrow> (error + Peer list) \<times> StateStorer" where
  "Peers x now s =
     (case Iterate keyPrefix (peersVisit x now) [] s of
        (Some err, peers, s) \<Rightarrow> (Inl err, s)
      | (None, peers, s) \<Rightarrow> (Inr peers, s))"

section \<open>Example values\<close>

text \<open>
  Concrete values at which the theorems below are instantiated. For the breaker the
  world is a clock reading and a count of the invocations of the operation; an
  invocation takes one nanosecond. \<open>scenarioOptions\<close> are the options of the
  first end-to-end scenario of the spec, and \<open>trippedBreaker\<close> is the breaker they
  give after two failures in a row (lemma \<open>two_failures_trip\<close>).
\<close>

definition dialFails :: "time \<times> nat \<Rightarrow> error option \<times> (time \<times> nat)" where
  "dialFails = (\<lambda>(t, n). (Some (ErrOther ''dial failed''), (t + 1, n + 1)))"

definition dialSucceeds :: "time \<times> nat \<Rightarrow> error option \<times> (time \<times> nat)" where
  "dialSucceeds = (\<lambda>(t, n). (None, (t + 1, n + 1)))"

definition scenarioOptions :: Options where
  "scenarioOptions =
     \<lparr> Limit = 2, FailInterval = Hour, StartBackoff = Minute, MaxBackoff = 4 * Minute \<rparr>"

definition trippedBreaker :: breaker where
  "trippedBreaker =
     \<lparr> limit = 2, consFailedCalls = 2, firstFailedTimestamp = 1001, closedTimestamp = 1002,
       backoff = Minute, maxBackoff = 4 * Minute, failInterval = Hour \<rparr>"

text \<open>
  For the blocklist: an instance of the four outside functions on the two addresses
  and the few durations in use, and a store that blocks both addresses since instant
  100, the first for 10 ns and the second for 20 ns.
\<close>

definition exampleExt :: ext where
  "exampleExt =
     \<lparr> ParseDuration =
         (\<lambda>s. if s = ''0s'' then Inr 0 else if s = ''10ns'' then Inr 10
               else if s = ''20ns'' then Inr 20
               else Inl (ErrOther ''time: invalid duration'')),
       DurationString =
         (\<lambda>d. if d = 0 then ''0s'' else if d = 10 then ''10ns''
               else if d = 20 then ''20ns'' else if d = - 1 then ''-1ns'' else ''-5ns''),
       AddressString = (\<lambda>a. if a = [0xab] then ''ab'' else ''cd''),
       ParseHexAddress =
         (\<lambda>s. if s = ''ab'' then Inr [0xab] else if s = ''cd'' then Inr [0xcd]
               else Inl (ErrOther ''encoding/hex: invalid byte'')) \<rparr>"

definition emptyStore :: StateStorer where
  "emptyStore =
     \<lparr> items = [], getErr = (\<lambda>k. None), putErr = (\<lambda>k. None), deleteErr = (\<lambda>k. None),
       iterateErr = None \<rparr>"

definition exampleStore :: StateStorer where
  "exampleStore =
     emptyStore\<lparr>items :=
       [(''blocklist-ab'', \<lparr> Timestamp = 100, Duration = ''10ns'' \<rparr>),
        (''blocklist-cd'', \<lparr> Timestamp = 100, Duration = ''20ns'' \<rparr>)]\<rparr>"

definition diskFailure :: "string \<Rightarrow> error option" where
  "diskFailure = (\<lambda>k. Some (ErrOther ''disk failure''))"

section \<open>Properties of the overlay metric\<close>

lemma xor_same_right: "(x XOR a = y XOR a) = (x = (y :: u8))"
  by (metis bit.xor_left_self xor.commute)

lemma distanceCmpLoop_swap:
  "distanceCmpLoop a y x i = - distanceCmpLoop a x y i"
proof (induction a x y i rule: distanceCmpLoop.induct)
  case (1 a x y i)
  show ?case
  proof (cases "i < length a")
    case False
    then show ?thesis by (simp add: distanceCmpLoop.simps [of a _ _ i])
  next
    case True
    show ?thesis
    proof (cases "x ! i XOR a ! i = y ! i XOR a ! i")
      case same: True
      with True "1.IH" [OF True refl refl same] show ?thesis
        by (simp add: distanceCmpLoop.simps [of a _ _ i] Let_def)
    next
      case diff: False
      with True show ?thesis
        by (auto simp: distanceCmpLoop.simps [of a _ _ i] Let_def)
    qed
  qed
qed

lemma distanceCmpLoop_refl: "distanceCmpLoop a x x i = 0"
proof (induction "length a - i" arbitrary: i)
  case 0
  then show ?case by (simp add: distanceCmpLoop.simps [of a x x i])
next
  case (Suc n)
  then have "distanceCmpLoop a x x (i + 1) = 0" by simp
  then show ?case by (simp add: distanceCmpLoop.simps [of a x x i] Let_def)
qed

lemma distanceCmpLoop_zero:
  "distanceCmpLoop a x y i = 0 \<Longrightarrow> i \<le> k \<Longrightarrow> k < length a \<Longrightarrow> x ! k = y ! k"
proof (induction a x y i rule: distanceCmpLoop.induct)
  case (1 a x y i)
  from "1.prems" have lt: "i < length a" by simp
  have same: "x ! i XOR a ! i = y ! i XOR a ! i"
    using "1.prems"(1) lt
    by (simp add: distanceCmpLoop.simps [of a x y i] Let_def split: if_splits)
  then have here: "x ! i = y ! i" by (simp add: xor_same_right)
  from "1.prems"(1) lt same have rest: "distanceCmpLoop a x y (i + 1) = 0"
    by (simp add: distanceCmpLoop.simps [of a x y i] Let_def)
  show ?case
  proof (cases "k = i")
    case True
    with here show ?thesis by simp
  next
    case False
    with "1.prems" have "i + 1 \<le> k" by simp
    from "1.IH" [OF lt refl refl same rest this "1.prems"(3)] show ?thesis .
  qed
qed

text \<open>
  Claim C7. For byte sequences \<open>a\<close>, \<open>x\<close>, \<open>y\<close> of one length, \<open>DistanceCmp\<close>
  succeeds, \<open>DistanceCmp a y x\<close> is the negation of \<open>DistanceCmp a x y\<close>,
  \<open>DistanceCmp a x x\<close> is 0, and \<open>DistanceCmp a x y\<close> is 0 only when \<open>x\<close> and
  \<open>y\<close> are the same address.
\<close>

theorem DistanceCmp_antisymmetric:
  assumes "length x = length a" and "length y = length a"
  shows "(\<exists>r. DistanceCmp a x y = Inr r \<and> DistanceCmp a y x = Inr (- r) \<and> (r = 0 \<longrightarrow> x = y))
    \<and> DistanceCmp a x x = Inr 0"
proof -
  let ?r = "distanceCmpLoop a x y 0"
  have 1: "DistanceCmp a x y = Inr ?r"
    using assms by (simp add: DistanceCmp_def)
  have 2: "DistanceCmp a y x = Inr (- ?r)"
    using assms by (simp add: DistanceCmp_def distanceCmpLoop_swap [of a y x 0])
  have 3: "x = y" if "?r = 0"
  proof (rule nth_equalityI)
    show "length x = length y" using assms by simp
  next
    fix k assume "k < length x"
    with assms have "k < length a" by simp
    from distanceCmpLoop_zero [OF that _ this] show "x ! k = y ! k" by simp
  qed
  have 4: "DistanceCmp a x x = Inr 0"
    using assms by (simp add: DistanceCmp_def distanceCmpLoop_refl)
  from 1 2 3 4 show ?thesis by blast
qed

theorem DistanceCmp_antisymmetric_witness:
  "length [3, 4 :: u8] = length [1, 2 :: u8] \<and> length [3, 5 :: u8] = length [1, 2 :: u8] \<and>
   (\<exists>r. DistanceCmp [1, 2] [3, 4] [3, 5] = Inr r \<and> DistanceCmp [1, 2] [3, 5] [3, 4] = Inr (- r)
      \<and> (r = 0 \<longrightarrow> [3, 4] = [3, 5 :: u8])) \<and>
   DistanceCmp [1, 2] [3, 4] [3, 4] = Inr 0"
  using DistanceCmp_antisymmetric [of "[3, 4]" "[1, 2]" "[3, 5]"]
  by simp

lemma DistanceCmp_example:
  "DistanceCmp [1, 2] [3, 4] [3, 5] = Inr 1 \<and> DistanceCmp [1, 2] [3, 5] [3, 4] = Inr (- 1)"
  by code_simp

lemma unat_of_nat_u8_le: "unat (of_nat n :: u8) \<le> n"
  by (simp add: unat_of_nat)

lemma proximityWindow_le:
  "unat (proximityWindow po one other) \<le> length one \<and>
   unat (proximityWindow po one other) \<le> length other"
proof -
  let ?l1 = "of_nat (length one) :: u8" and ?l2 = "of_nat (length other) :: u8"
  have "proximityWindow po one other \<le> ?l1 \<and> proximityWindow po one other \<le> ?l2"
    by (auto simp: proximityWindow_def Let_def not_less)
  then have "unat (proximityWindow po one other) \<le> unat ?l1 \<and>
      unat (proximityWindow po one other) \<le> unat ?l2"
    by (simp add: word_le_nat_alt)
  with unat_of_nat_u8_le [of "length one"] unat_of_nat_u8_le [of "length other"]
  show ?thesis by linarith
qed

lemma proximityBytes_returns:
  "unat b \<le> length one \<Longrightarrow> unat b \<le> length other \<Longrightarrow> proximityBytes po one other b i \<noteq> None"
proof (induction po one other b i rule: proximityBytes.induct)
  case (1 po one other b i)
  show ?case
  proof (cases "i < b")
    case False
    then show ?thesis by (simp add: proximityBytes.simps [of po one other b i])
  next
    case True
    then have "unat i < unat b" by (simp add: word_less_nat_alt)
    with "1.prems" have inb: "unat i < length one \<and> unat i < length other" by simp
    show ?thesis
    proof (cases "proximityBits 8 (one ! unat i XOR other ! unat i) i 0")
      case None
      with True inb "1.IH" [OF True inb None "1.prems"] show ?thesis
        by (simp add: proximityBytes.simps [of po one other b i])
    next
      case (Some r)
      with True inb show ?thesis
        by (simp add: proximityBytes.simps [of po one other b i])
    qed
  qed
qed

text \<open>
  Claim C6, as stated: every one of the five functions fails with the length error
  when its inputs differ in length. \<open>Proximity\<close> and \<open>ExtendedProximity\<close> do not:
  their result type is \<^verbatim>\<open>uint8\<close> alone, and on inputs of lengths 1 and 2 they return
  a proximity order.
\<close>

theorem Proximity_length_mismatch_counterexample:
  "length [0x40 :: u8] \<noteq> length [0, 0 :: u8] \<and>
   Proximity 31 [0x40] [0, 0] = Some 1 \<and> ExtendedProximity 36 [0x40] [0, 0] = Some 1"
  by code_simp

text \<open>
  Claim C6, amended. \<open>DistanceRaw\<close>, \<open>Distance\<close> and \<open>DistanceCmp\<close> fail with the
  length error whenever two of their inputs differ in length. \<open>Proximity\<close> and
  \<open>ExtendedProximity\<close> have no error result: for all inputs, of equal length or
  not, they return a proximity order (and never index outside a slice).
\<close>

theorem length_mismatch_errors:
  "(length x \<noteq> length y \<longrightarrow>
      DistanceRaw x y = Inl ErrAddressLength \<and> Distance x y = Inl ErrAddressLength) \<and>
   (length a \<noteq> length x \<or> length a \<noteq> length y \<or> length x \<noteq> length y \<longrightarrow>
      DistanceCmp a x y = Inl ErrAddressLength) \<and>
   (\<exists>r. Proximity MaxPO one other = Some r) \<and>
   (\<exists>r. ExtendedProximity ExtendedPO one other = Some r)"
proof -
  have "Proximity MaxPO one other \<noteq> None"
    unfolding Proximity_def using proximityWindow_le [of MaxPO one other]
    by (intro proximityBytes_returns) simp_all
  moreover have "ExtendedProximity ExtendedPO one other \<noteq> None"
    unfolding ExtendedProximity_def using proximityWindow_le [of ExtendedPO one other]
    by (intro proximityBytes_returns) simp_all
  moreover have "length x \<noteq> length y \<longrightarrow>
      DistanceRaw x y = Inl ErrAddressLength \<and> Distance x y = Inl ErrAddressLength"
    by (simp add: Distance_def DistanceRaw_def)
  moreover have "length a \<noteq> length x \<or> length a \<noteq> length y \<or> length x \<noteq> length y \<longrightarrow>
      DistanceCmp a x y = Inl ErrAddressLength"
    by (auto simp: DistanceCmp_def)
  ultimately show ?thesis by auto
qed

theorem length_mismatch_errors_witness:
  "length [1 :: u8] \<noteq> length [1, 2 :: u8] \<and>
   DistanceRaw [1] [1, 2] = Inl ErrAddressLength \<and> Distance [1] [1, 2] = Inl ErrAddressLength \<and>
   DistanceCmp [1, 2] [1] [1, 2] = Inl ErrAddressLength \<and>
   (\<exists>r. Proximity 31 [1] [1, 2] = Some r) \<and> (\<exists>r. ExtendedProximity 36 [1] [1, 2] = Some r)"
  using length_mismatch_errors [of "[1]" "[1, 2]" "[1, 2]" 31 "[1]" "[1, 2]" 36]
  by simp


section \<open>Properties of the circuit breaker\<close>

lemma Sub_exact: "minDuration \<le> t - u \<Longrightarrow> t - u \<le> maxDuration \<Longrightarrow> Sub t u = t - u"
  by (simp add: Sub_def)

text \<open>An elapsed time of at least \<open>d\<close> is measured as at least \<open>d\<close>, for every duration \<open>d\<close>.\<close>

lemma Sub_ge: "d \<le> maxDuration \<Longrightarrow> d \<le> t - u \<Longrightarrow> d \<le> Sub t u"
  by (simp add: Sub_def)

lemma Execute_passed:
  "beforef (timeNow w) b = (None, b') \<Longrightarrow>
   Execute timeNow f b w =
     (fst (f w), snd (afterf (timeNow (snd (f w))) (fst (f w)) b'), snd (f w))"
  by (simp add: Execute_def afterf_def Let_def split: prod.splits option.splits)

text \<open>
  A call that passes \<open>beforef\<close> is below the limit or has its counter at zero, so
  the increment in \<open>afterf\<close> cannot leave the range of a Go \<^verbatim>\<open>int\<close>.
\<close>

lemma beforef_passed_below:
  "beforef now b = (None, b') \<Longrightarrow> consFailedCalls b' < limit b' \<or> consFailedCalls b' = 0"
  by (auto simp: beforef_def resetFailed_def Let_def split: if_splits)

lemma int64_id: "- (2 ^ 63) \<le> n \<Longrightarrow> n < 2 ^ 63 \<Longrightarrow> int64 n = n"
  by (simp add: int64_def)

lemma two_failures_trip:
  "runCalls fst [CallExecute dialFails, CallExecute dialFails]
     (NewBreaker scenarioOptions, (1000, 0)) = (trippedBreaker, (1002, 2))"
  by (simp add: NewBreaker_def scenarioOptions_def trippedBreaker_def dialFails_def
      Execute_def beforef_def afterf_def IsZero_def Sub_def Minute_def Hour_def
      minDuration_def maxDuration_def Let_def)

lemma Sub_self: "Sub t t = 0"
  by (simp add: Sub_def minDuration_def maxDuration_def)

text \<open>
  A failing operation on a breaker below its limit and inside its window is counted:
  the first failure of a streak sets the first-failure timestamp, the one that
  reaches the limit sets the trip timestamp.
\<close>

lemma Execute_failure_counted:
  assumes below: "consFailedCalls b < limit b"
    and fails: "fst (f w) \<noteq> None"
    and window: "IsZero (firstFailedTimestamp b) \<or>
      Sub (timeNow w) (firstFailedTimestamp b) < failInterval b"
  shows "Execute timeNow f b w =
    (fst (f w),
     b\<lparr>firstFailedTimestamp :=
          (if consFailedCalls b = 0 then timeNow (snd (f w)) else firstFailedTimestamp b),
        consFailedCalls := consFailedCalls b + 1,
        closedTimestamp :=
          (if consFailedCalls b + 1 = limit b then timeNow (snd (f w)) else closedTimestamp b)\<rparr>,
     snd (f w))"
proof -
  from below window have "beforef (timeNow w) b = (None, b)"
    by (auto simp: beforef_def Let_def)
  from Execute_passed [where timeNow = timeNow and w = w and f = f, OF this] fails
  show ?thesis
    by (auto simp: afterf_def Let_def)
qed

lemma failures_accumulate:
  assumes "\<forall>f \<in> set fs. \<forall>w. fst (f w) \<noteq> None"
    and "\<forall>w w'. Sub (timeNow w) (timeNow w') < failInterval b"
    and "IsZero (firstFailedTimestamp b) \<or> (\<exists>w'. firstFailedTimestamp b = timeNow w')"
    and "consFailedCalls b + int (length fs) \<le> limit b"
  shows "consFailedCalls (fst (runCalls timeNow (map CallExecute fs) (b, w)))
      = consFailedCalls b + int (length fs) \<and>
    limit (fst (runCalls timeNow (map CallExecute fs) (b, w))) = limit b \<and>
    backoff (fst (runCalls timeNow (map CallExecute fs) (b, w))) = backoff b \<and>
    (fs \<noteq> [] \<and> consFailedCalls b + int (length fs) = limit b \<longrightarrow>
       closedTimestamp (fst (runCalls timeNow (map CallExecute fs) (b, w)))
         = timeNow (snd (runCalls timeNow (map CallExecute fs) (b, w))))"
  using assms
proof (induction fs arbitrary: b w)
  case Nil
  then show ?case by simp
next
  case (Cons f fs)
  let ?b1 = "b\<lparr>firstFailedTimestamp :=
          (if consFailedCalls b = 0 then timeNow (snd (f w)) else firstFailedTimestamp b),
        consFailedCalls := consFailedCalls b + 1,
        closedTimestamp :=
          (if consFailedCalls b + 1 = limit b then timeNow (snd (f w)) else closedTimestamp b)\<rparr>"
  from Cons.prems(4) have below: "consFailedCalls b < limit b" by simp
  from Cons.prems(1) have fails: "fst (f w) \<noteq> None" by simp
  from Cons.prems(2,3) have window: "IsZero (firstFailedTimestamp b) \<or>
      Sub (timeNow w) (firstFailedTimestamp b) < failInterval b" by auto
  have step: "runCall timeNow (CallExecute f) (b, w) = (?b1, snd (f w))"
    by (simp add: Execute_failure_counted [where timeNow = timeNow and w = w and f = f and b = b,
        OF below fails window])
  have p1: "\<forall>f \<in> set fs. \<forall>w. fst (f w) \<noteq> None" using Cons.prems(1) by simp
  have p2: "\<forall>w w'. Sub (timeNow w) (timeNow w') < failInterval ?b1" using Cons.prems(2) by simp
  have p3: "IsZero (firstFailedTimestamp ?b1) \<or> (\<exists>w'. firstFailedTimestamp ?b1 = timeNow w')"
    using Cons.prems(3) by auto
  have p4: "consFailedCalls ?b1 + int (length fs) \<le> limit ?b1" using Cons.prems(4) by simp
  note ih = Cons.IH [OF p1 p2 p3 p4, of "snd (f w)"]
  show ?case
  proof (cases "fs = []")
    case True
    with step show ?thesis by simp
  next
    case False
    with ih step show ?thesis by simp
  qed
qed

text \<open>
  From construction to the rejected call: after \<open>limit\<close> failing operations in a
  row on a new breaker, all inside the failure window, the breaker has recorded
  exactly \<open>limit\<close> failures, and a call made before the (positive) backoff has begun
  to run is rejected without invoking its operation \<open>g\<close>.
\<close>

lemma limit_failures_then_closed:
  assumes "\<forall>f \<in> set fs. \<forall>w. fst (f w) \<noteq> None"
    and "\<forall>w w'. Sub (timeNow w) (timeNow w') < failInterval (NewBreaker opts)"
    and "0 < limit (NewBreaker opts)" and "int (length fs) = limit (NewBreaker opts)"
    and "0 < backoff (NewBreaker opts)"
    and "runCalls timeNow (map CallExecute fs) (NewBreaker opts, w) = (b, w')"
  shows "consFailedCalls b = limit b \<and> Execute timeNow g b w' = (Some ErrClosed, b, w')"
proof -
  let ?b0 = "NewBreaker opts"
  have zero: "consFailedCalls ?b0 = 0" "IsZero (firstFailedTimestamp ?b0)"
    by (simp_all add: NewBreaker_def IsZero_def Let_def)
  from assms(3,4) have ne: "fs \<noteq> []" by auto
  from zero assms(4) have le: "consFailedCalls ?b0 + int (length fs) \<le> limit ?b0" by simp
  from failures_accumulate [OF assms(1,2) _ le, of w] zero assms(4,6) ne
  have cons: "consFailedCalls b = limit b" and lim: "limit b = limit ?b0"
    and bo: "backoff b = backoff ?b0" and closed: "closedTimestamp b = timeNow w'"
    by simp_all
  from closed bo assms(5) have "IsZero (closedTimestamp b) \<or>
      Sub (timeNow w') (closedTimestamp b) < backoff b"
    by (simp add: Sub_self)
  with cons have "beforef (timeNow w') b = (Some ErrClosed, b)"
    by (simp add: beforef_def)
  with cons show ?thesis by (simp add: Execute_def)
qed

text \<open>
  Claim C1. A breaker that has recorded exactly \<open>limit\<close> consecutive failures, with
  the trip timestamp set and the backoff not yet elapsed: the next \<open>Execute\<close>
  returns \<open>ErrClosed\<close> and does not invoke the operation, whatever the operation is
  (the breaker and the world outside are as before the call).
\<close>

theorem Execute_rejects_when_closed:
  assumes "consFailedCalls b = limit b"
    and "\<not> IsZero (closedTimestamp b)"
    and "Sub (timeNow w) (closedTimestamp b) < backoff b"
  shows "Execute timeNow f b w = (Some ErrClosed, b, w)"
  using assms by (simp add: Execute_def beforef_def)

theorem Execute_rejects_when_closed_witness:
  "consFailedCalls trippedBreaker = limit trippedBreaker \<and>
   \<not> IsZero (closedTimestamp trippedBreaker) \<and>
   Sub (fst (1002 :: time, 2 :: nat)) (closedTimestamp trippedBreaker) < backoff trippedBreaker \<and>
   Execute fst dialFails trippedBreaker (1002, 2) = (Some ErrClosed, trippedBreaker, (1002, 2)) \<and>
   dialFails (1002, 2) = (Some (ErrOther ''dial failed''), (1003, 3))"
  using Execute_rejects_when_closed [of trippedBreaker fst "(1002, 2)" dialFails]
  by (simp add: trippedBreaker_def dialFails_def IsZero_def Sub_def Minute_def
      minDuration_def maxDuration_def)

text \<open>
  Claim C4, as stated: on a tripped breaker whose backoff has elapsed, \<open>Execute\<close>
  doubles the backoff, capped at \<open>maxBackoff\<close>. The doubling is the \<^verbatim>\<open>int64\<close>
  product \<^verbatim>\<open>b.backoff * 2\<close>: with \<^verbatim>\<open>StartBackoff\<close> \<open>2 ^ 62\<close> ns and the greatest
  duration as \<^verbatim>\<open>MaxBackoff\<close>, after one failure (limit 1) and \<open>2 ^ 62\<close> ns the
  product wraps around to \<open>- (2 ^ 63)\<close>, which passes the comparison with
  \<open>maxBackoff\<close> and becomes the backoff; it is neither the double nor the cap.
\<close>

theorem Execute_backoff_overflow_counterexample:
  "runCalls fst [CallExecute dialFails, WorldStep (\<lambda>(t, n). (t + 2 ^ 62, n))]
     (NewBreaker \<lparr> Limit = 1, FailInterval = Hour, StartBackoff = 2 ^ 62,
        MaxBackoff = 2 ^ 63 - 1 \<rparr>, (1000, 0)) =
     (\<lparr> limit = 1, consFailedCalls = 1, firstFailedTimestamp = 1001, closedTimestamp = 1001,
        backoff = 2 ^ 62, maxBackoff = 2 ^ 63 - 1, failInterval = Hour \<rparr>,
      (1001 + 2 ^ 62, 1)) \<and>
   Sub (1001 + 2 ^ 62) 1001 \<ge> 2 ^ 62 \<and>
   Execute fst dialSucceeds
     \<lparr> limit = 1, consFailedCalls = 1, firstFailedTimestamp = 1001, closedTimestamp = 1001,
       backoff = 2 ^ 62, maxBackoff = 2 ^ 63 - 1, failInterval = Hour \<rparr>
     (1001 + 2 ^ 62, 1) =
     (None,
      \<lparr> limit = 1, consFailedCalls = 0, firstFailedTimestamp = 0, closedTimestamp = 1001,
        backoff = - (2 ^ 63), maxBackoff = 2 ^ 63 - 1, failInterval = Hour \<rparr>,
      (1002 + 2 ^ 62, 2)) \<and>
   - (2 ^ 63) \<noteq> min (2 * 2 ^ 62) (2 ^ 63 - 1 :: int)"
  by (simp add: NewBreaker_def dialFails_def dialSucceeds_def Execute_def beforef_def afterf_def
      resetFailed_def IsZero_def Sub_def int64_def Hour_def Minute_def minDuration_def
      maxDuration_def Let_def)

text \<open>
  Claim C4, amended. \<open>Execute\<close> on a tripped breaker (consecutive failures at or
  above \<open>limit\<close>) with the trip timestamp set and at least the current backoff
  elapsed since then, where twice the current backoff is an \<^verbatim>\<open>int64\<close> (the backoff
  lies between \<open>- (2 ^ 62)\<close> and \<open>2 ^ 62\<close> ns): \<open>beforef\<close> returns no error and
  leaves the failure counter and the first-failure timestamp reset and the backoff
  at the lesser of twice its value and \<open>maxBackoff\<close>; \<open>Execute\<close> then invokes the
  operation, returns its result and hands that result to \<open>afterf\<close>.
\<close>

theorem Execute_after_cooldown:
  assumes "consFailedCalls b \<ge> limit b"
    and "\<not> IsZero (closedTimestamp b)"
    and "Sub (timeNow w) (closedTimestamp b) \<ge> backoff b"
    and "- (2 ^ 62) \<le> backoff b" and "backoff b < 2 ^ 62"
  shows "beforef (timeNow w) b =
      (None, b\<lparr>consFailedCalls := 0, firstFailedTimestamp := 0,
                backoff := min (2 * backoff b) (maxBackoff b)\<rparr>) \<and>
    Execute timeNow f b w =
      (fst (f w),
       snd (afterf (timeNow (snd (f w))) (fst (f w))
         (b\<lparr>consFailedCalls := 0, firstFailedTimestamp := 0,
            backoff := min (2 * backoff b) (maxBackoff b)\<rparr>)),
       snd (f w))"
proof -
  from assms(4,5) have "int64 (backoff b * 2) = 2 * backoff b"
    by (intro trans [OF int64_id]) simp_all
  with assms(1-3) have "beforef (timeNow w) b =
      (None, b\<lparr>consFailedCalls := 0, firstFailedTimestamp := 0,
                backoff := min (2 * backoff b) (maxBackoff b)\<rparr>)"
    by (simp add: beforef_def resetFailed_def IsZero_def Let_def min_def)
  then show ?thesis
    by (simp add: Execute_passed [where timeNow = timeNow and w = w])
qed

theorem Execute_after_cooldown_witness:
  "consFailedCalls trippedBreaker \<ge> limit trippedBreaker \<and>
   \<not> IsZero (closedTimestamp trippedBreaker) \<and>
   Sub (fst (1002 + Minute, 2 :: nat)) (closedTimestamp trippedBreaker) \<ge> backoff trippedBreaker \<and>
   - (2 ^ 62) \<le> backoff trippedBreaker \<and>
   backoff trippedBreaker < 2 ^ 62 \<and>
   beforef (1002 + Minute) trippedBreaker =
     (None, trippedBreaker\<lparr>consFailedCalls := 0, firstFailedTimestamp := 0,
        backoff := 2 * Minute\<rparr>) \<and>
   Execute fst dialFails trippedBreaker (1002 + Minute, 2) =
     (Some (ErrOther ''dial failed''),
      trippedBreaker\<lparr>consFailedCalls := 1, firstFailedTimestamp := 1003 + Minute,
        backoff := 2 * Minute\<rparr>,
      (1003 + Minute, 3))"
  using Execute_after_cooldown [of trippedBreaker fst "(1002 + Minute, 2)" dialFails]
  by (simp add: trippedBreaker_def dialFails_def IsZero_def Sub_def Minute_def
      minDuration_def maxDuration_def afterf_def)

text \<open>
  Claim C5. A breaker that is not tripped and has a first-failure timestamp, and an
  \<open>Execute\<close> at least \<open>failInterval\<close> after it: \<open>beforef\<close> resets the failure
  counter (and the timestamp) before the operation is invoked, so that after the
  call at most this call's own failure is counted, and a breaker that had failures
  on record is still below its limit.
\<close>

theorem Execute_after_failInterval:
  assumes "consFailedCalls b < limit b"
    and "\<not> IsZero (firstFailedTimestamp b)"
    and "Sub (timeNow w) (firstFailedTimestamp b) \<ge> failInterval b"
  shows "beforef (timeNow w) b = (None, b\<lparr>consFailedCalls := 0, firstFailedTimestamp := 0\<rparr>) \<and>
    Execute timeNow f b w =
      (fst (f w),
       snd (afterf (timeNow (snd (f w))) (fst (f w))
         (b\<lparr>consFailedCalls := 0, firstFailedTimestamp := 0\<rparr>)),
       snd (f w)) \<and>
    consFailedCalls (fst (snd (Execute timeNow f b w))) \<le> 1 \<and>
    (0 < consFailedCalls b \<longrightarrow>
       consFailedCalls (fst (snd (Execute timeNow f b w)))
         < limit (fst (snd (Execute timeNow f b w))))"
proof -
  from assms have bf: "beforef (timeNow w) b =
      (None, b\<lparr>consFailedCalls := 0, firstFailedTimestamp := 0\<rparr>)"
    by (simp add: beforef_def resetFailed_def Let_def)
  note ex = Execute_passed [where timeNow = timeNow and w = w and f = f, OF bf]
  have "consFailedCalls (fst (snd (Execute timeNow f b w))) \<le> 1"
    unfolding ex by (simp add: afterf_def resetFailed_def Let_def split: option.splits)
  moreover have "0 < consFailedCalls b \<longrightarrow>
       consFailedCalls (fst (snd (Execute timeNow f b w)))
         < limit (fst (snd (Execute timeNow f b w)))"
    unfolding ex using assms(1)
    by (simp add: afterf_def resetFailed_def Let_def split: option.splits)
  ultimately show ?thesis using bf ex by simp
qed

theorem Execute_after_failInterval_witness:
  "runCalls fst [CallExecute dialFails] (NewBreaker scenarioOptions, (1000, 0)) =
     (trippedBreaker\<lparr>consFailedCalls := 1, closedTimestamp := 0\<rparr>, (1001, 1)) \<and>
   consFailedCalls (trippedBreaker\<lparr>consFailedCalls := 1, closedTimestamp := 0\<rparr>)
     < limit (trippedBreaker\<lparr>consFailedCalls := 1, closedTimestamp := 0\<rparr>) \<and>
   \<not> IsZero (firstFailedTimestamp (trippedBreaker\<lparr>consFailedCalls := 1, closedTimestamp := 0\<rparr>)) \<and>
   Sub (fst (1001 + Hour, 1 :: nat))
       (firstFailedTimestamp (trippedBreaker\<lparr>consFailedCalls := 1, closedTimestamp := 0\<rparr>))
     \<ge> failInterval (trippedBreaker\<lparr>consFailedCalls := 1, closedTimestamp := 0\<rparr>) \<and>
   0 < consFailedCalls (trippedBreaker\<lparr>consFailedCalls := 1, closedTimestamp := 0\<rparr>) \<and>
   beforef (1001 + Hour) (trippedBreaker\<lparr>consFailedCalls := 1, closedTimestamp := 0\<rparr>) =
     (None, trippedBreaker\<lparr>consFailedCalls := 0, firstFailedTimestamp := 0,
        closedTimestamp := 0\<rparr>) \<and>
   Execute fst dialFails (trippedBreaker\<lparr>consFailedCalls := 1, closedTimestamp := 0\<rparr>)
       (1001 + Hour, 1) =
     (Some (ErrOther ''dial failed''),
      trippedBreaker\<lparr>consFailedCalls := 1, firstFailedTimestamp := 1002 + Hour,
        closedTimestamp := 0\<rparr>,
      (1002 + Hour, 2))"
  using Execute_after_failInterval
    [of "trippedBreaker\<lparr>consFailedCalls := 1, closedTimestamp := 0\<rparr>" fst "(1001 + Hour, 1)"
      dialFails]
  by (simp add: NewBreaker_def scenarioOptions_def trippedBreaker_def dialFails_def
      Execute_def beforef_def IsZero_def Sub_def Minute_def Hour_def
      minDuration_def maxDuration_def afterf_def Let_def)

lemma beforef_backoff:
  assumes "0 \<le> backoff b" and "backoff b \<le> maxBackoff b" and "maxBackoff b < 2 ^ 62"
  shows "backoff b \<le> backoff (snd (beforef now b)) \<and>
    backoff (snd (beforef now b)) \<le> maxBackoff (snd (beforef now b)) \<and>
    maxBackoff (snd (beforef now b)) = maxBackoff b"
proof -
  from assms have "int64 (backoff b * 2) = 2 * backoff b"
    by (intro trans [OF int64_id]) simp_all
  with assms show ?thesis
    by (simp add: beforef_def resetFailed_def Let_def)
qed

lemma afterf_backoff:
  "backoff (snd (afterf now r b)) = backoff b \<and> maxBackoff (snd (afterf now r b)) = maxBackoff b"
  by (simp add: afterf_def resetFailed_def Let_def split: option.splits)

lemma Execute_backoff:
  assumes "0 \<le> backoff b" and "backoff b \<le> maxBackoff b" and "maxBackoff b < 2 ^ 62"
  shows "backoff b \<le> backoff (fst (snd (Execute timeNow f b w))) \<and>
    backoff (fst (snd (Execute timeNow f b w))) \<le> maxBackoff (fst (snd (Execute timeNow f b w))) \<and>
    maxBackoff (fst (snd (Execute timeNow f b w))) = maxBackoff b"
proof (cases "beforef (timeNow w) b")
  case (Pair e b')
  with beforef_backoff [OF assms, of "timeNow w"]
  have b': "backoff b \<le> backoff b'" "backoff b' \<le> maxBackoff b'" "maxBackoff b' = maxBackoff b"
    by simp_all
  show ?thesis
  proof (cases e)
    case None
    with Pair have "beforef (timeNow w) b = (None, b')" by simp
    from Execute_passed [where timeNow = timeNow and w = w and f = f, OF this] b'
    show ?thesis by (simp add: afterf_backoff)
  next
    case (Some err)
    with Pair b' show ?thesis by (simp add: Execute_def)
  qed
qed

lemma runCall_backoff:
  assumes "0 \<le> backoff (fst bw)" and "backoff (fst bw) \<le> maxBackoff (fst bw)"
    and "maxBackoff (fst bw) < 2 ^ 62"
  shows "backoff (fst bw) \<le> backoff (fst (runCall timeNow c bw)) \<and>
    backoff (fst (runCall timeNow c bw)) \<le> maxBackoff (fst (runCall timeNow c bw)) \<and>
    maxBackoff (fst (runCall timeNow c bw)) = maxBackoff (fst bw)"
proof (cases bw)
  case (Pair b w)
  show ?thesis
  proof (cases c)
    case (CallExecute f)
    with Pair assms Execute_backoff [of b timeNow f w] show ?thesis by simp
  next
    case CallClosedUntil
    with Pair assms show ?thesis by (simp add: ClosedUntil_def)
  next
    case (WorldStep g)
    with Pair assms show ?thesis by simp
  qed
qed

lemma runCalls_backoff:
  assumes "0 \<le> backoff (fst bw)" and "backoff (fst bw) \<le> maxBackoff (fst bw)"
    and "maxBackoff (fst bw) < 2 ^ 62"
  shows "backoff (fst bw) \<le> backoff (fst (runCalls timeNow cs bw)) \<and>
    backoff (fst (runCalls timeNow cs bw)) \<le> maxBackoff (fst (runCalls timeNow cs bw)) \<and>
    maxBackoff (fst (runCalls timeNow cs bw)) = maxBackoff (fst bw)"
  using assms
proof (induction cs arbitrary: bw)
  case Nil
  then show ?case by simp
next
  case (Cons c cs)
  from runCall_backoff [OF Cons.prems, of timeNow c]
  have step: "backoff (fst bw) \<le> backoff (fst (runCall timeNow c bw))"
    "backoff (fst (runCall timeNow c bw)) \<le> maxBackoff (fst (runCall timeNow c bw))"
    "maxBackoff (fst (runCall timeNow c bw)) = maxBackoff (fst bw)"
    by simp_all
  from step Cons.prems have "0 \<le> backoff (fst (runCall timeNow c bw))"
    "maxBackoff (fst (runCall timeNow c bw)) < 2 ^ 62" by simp_all
  from Cons.IH [OF this(1) step(2) this(2)] step show ?case by simp
qed

lemma runCalls_append:
  "runCalls timeNow (cs @ cs') bw = runCalls timeNow cs' (runCalls timeNow cs bw)"
  by (induction cs arbitrary: bw) simp_all

text \<open>
  Claim C10, as stated: with the initial backoff not above \<open>maxBackoff\<close> the backoff
  never decreases. Two histories where it does. With \<^verbatim>\<open>StartBackoff\<close> \<open>-5\<close> ns and
  \<^verbatim>\<open>MaxBackoff\<close> 10 ns, one failure trips the breaker (limit 1) and the next call,
  a successful one, finds the backoff elapsed and doubles it to \<open>-10\<close> ns. With
  \<^verbatim>\<open>StartBackoff\<close> \<open>2 ^ 62\<close> ns and the greatest duration as \<^verbatim>\<open>MaxBackoff\<close>, the
  doubling after the first cool-down wraps around to \<open>- (2 ^ 63)\<close> ns.
\<close>

theorem backoff_decreases_counterexample:
  "backoff (NewBreaker \<lparr> Limit = 1, FailInterval = Hour, StartBackoff = - 5, MaxBackoff = 10 \<rparr>)
     \<le> maxBackoff (NewBreaker \<lparr> Limit = 1, FailInterval = Hour, StartBackoff = - 5, MaxBackoff = 10 \<rparr>) \<and>
   backoff (fst (runCalls fst [CallExecute dialFails]
      (NewBreaker \<lparr> Limit = 1, FailInterval = Hour, StartBackoff = - 5, MaxBackoff = 10 \<rparr>,
       (1000, 0)))) = - 5 \<and>
   backoff (fst (runCalls fst [CallExecute dialFails, CallExecute dialSucceeds]
      (NewBreaker \<lparr> Limit = 1, FailInterval = Hour, StartBackoff = - 5, MaxBackoff = 10 \<rparr>,
       (1000, 0)))) = - 10 \<and>
   backoff (NewBreaker \<lparr> Limit = 1, FailInterval = Hour, StartBackoff = 2 ^ 62,
       MaxBackoff = 2 ^ 63 - 1 \<rparr>)
     \<le> maxBackoff (NewBreaker \<lparr> Limit = 1, FailInterval = Hour, StartBackoff = 2 ^ 62,
       MaxBackoff = 2 ^ 63 - 1 \<rparr>) \<and>
   backoff (fst (runCalls fst [CallExecute dialFails]
      (NewBreaker \<lparr> Limit = 1, FailInterval = Hour, StartBackoff = 2 ^ 62,
         MaxBackoff = 2 ^ 63 - 1 \<rparr>, (1000, 0)))) = 2 ^ 62 \<and>
   backoff (fst (runCalls fst
      [CallExecute dialFails, WorldStep (\<lambda>(t, n). (t + 2 ^ 62, n)), CallExecute dialSucceeds]
      (NewBreaker \<lparr> Limit = 1, FailInterval = Hour, StartBackoff = 2 ^ 62,
         MaxBackoff = 2 ^ 63 - 1 \<rparr>, (1000, 0)))) = - (2 ^ 63)"
  by (simp add: NewBreaker_def dialFails_def dialSucceeds_def Execute_def beforef_def afterf_def
      resetFailed_def IsZero_def Sub_def int64_def Hour_def Minute_def minDuration_def
      maxDuration_def Let_def)

text \<open>
  Claim C10, amended. For a breaker constructed with an initial backoff that is not
  negative and not above \<open>maxBackoff\<close>, and \<open>maxBackoff\<close> below \<open>2 ^ 62\<close> ns (so
  that no doubling leaves \<^verbatim>\<open>int64\<close>), the backoff never decreases along a history of
  \<open>Execute\<close> and \<open>ClosedUntil\<close> calls, with the world changing in any way between
  them: after any history it is at least the initial value, and after any
  continuation at least what it was; so a backoff that has grown is never restored,
  whatever the later operations return.
\<close>

theorem backoff_nondecreasing:
  assumes "0 \<le> backoff (NewBreaker opts)"
    and "backoff (NewBreaker opts) \<le> maxBackoff (NewBreaker opts)"
    and "maxBackoff (NewBreaker opts) < 2 ^ 62"
  shows "backoff (NewBreaker opts) \<le> backoff (fst (runCalls timeNow cs (NewBreaker opts, w))) \<and>
    backoff (fst (runCalls timeNow cs (NewBreaker opts, w)))
      \<le> backoff (fst (runCalls timeNow (cs @ cs') (NewBreaker opts, w)))"
proof -
  let ?bw = "(NewBreaker opts, w)"
  from assms have a: "0 \<le> backoff (fst ?bw)" "backoff (fst ?bw) \<le> maxBackoff (fst ?bw)"
    "maxBackoff (fst ?bw) < 2 ^ 62" by simp_all
  from runCalls_backoff [OF a, of timeNow cs]
  have 1: "backoff (NewBreaker opts) \<le> backoff (fst (runCalls timeNow cs ?bw))"
    and 2: "backoff (fst (runCalls timeNow cs ?bw)) \<le> maxBackoff (fst (runCalls timeNow cs ?bw))"
    and 3: "maxBackoff (fst (runCalls timeNow cs ?bw)) < 2 ^ 62"
    using a by simp_all
  from 1 a have 0: "0 \<le> backoff (fst (runCalls timeNow cs ?bw))" by simp
  from runCalls_backoff [OF 0 2 3, of timeNow cs'] 1 show ?thesis
    by (simp add: runCalls_append)
qed

theorem backoff_nondecreasing_witness:
  "0 \<le> backoff (NewBreaker scenarioOptions) \<and>
   backoff (NewBreaker scenarioOptions) \<le> maxBackoff (NewBreaker scenarioOptions) \<and>
   maxBackoff (NewBreaker scenarioOptions) < 2 ^ 62 \<and>
   backoff (NewBreaker scenarioOptions) = Minute \<and>
   backoff (fst (runCalls fst
      [CallExecute dialFails, CallExecute dialFails, WorldStep (\<lambda>(t, n). (t + Minute, n)),
       CallExecute dialFails]
      (NewBreaker scenarioOptions, (1000, 0)))) = 2 * Minute \<and>
   backoff (fst (runCalls fst
      ([CallExecute dialFails, CallExecute dialFails, WorldStep (\<lambda>(t, n). (t + Minute, n)),
        CallExecute dialFails] @ [CallExecute dialSucceeds, CallClosedUntil])
      (NewBreaker scenarioOptions, (1000, 0)))) = 2 * Minute"
  using backoff_nondecreasing [of scenarioOptions fst
      "[CallExecute dialFails, CallExecute dialFails, WorldStep (\<lambda>(t, n). (t + Minute, n)),
        CallExecute dialFails]"
      "(1000, 0)" "[CallExecute dialSucceeds, CallClosedUntil]"]
  by (simp add: NewBreaker_def scenarioOptions_def dialFails_def dialSucceeds_def Execute_def
      ClosedUntil_def beforef_def afterf_def resetFailed_def IsZero_def Sub_def int64_def
      Minute_def Hour_def minDuration_def maxDuration_def Let_def)

section \<open>Properties of the blocklist\<close>

lemma get_store: "snd (get x k s) = s"
  by (simp add: get_def Get_def split: option.splits sum.splits)

lemma get_found:
  "getErr s key = None \<Longrightarrow> map_of (items s) key = Some e \<Longrightarrow>
   ParseDuration x (Duration e) = Inr d \<Longrightarrow> get x key s = ((Timestamp e, d, None), s)"
  by (simp add: get_def Get_def)

lemma get_missing:
  "getErr s key = None \<Longrightarrow> map_of (items s) key = None \<Longrightarrow>
   get x key s = ((0, - 1, Some ErrNotFound), s)"
  by (simp add: get_def Get_def)

lemma Delete_removes:
  "deleteErr s key = None \<Longrightarrow> map_of (items (snd (Delete key s))) key = None"
  by (simp add: Delete_def delete_conv')

lemma Put_stores:
  "putErr s key = None \<Longrightarrow>
   fst (Put key e s) = None \<and> map_of (items (snd (Put key e s))) key = Some e"
  by (simp add: Put_def update_conv')

lemma peersVisit_store: "snd (snd (peersVisit x now k v peers s)) = s"
proof (cases "get x k s")
  case (Pair r s')
  with get_store [of x k s] have "s' = s" by simp
  with Pair show ?thesis
    by (cases r) (auto simp: peersVisit_def split: sum.splits option.splits)
qed

lemma iterateLoop_peersVisit_store:
  "snd (snd (iterateLoop (peersVisit x now) kvs acc s)) = s"
proof (induction kvs arbitrary: acc)
  case Nil
  then show ?case by simp
next
  case (Cons kv kvs)
  obtain k v where kv: "kv = (k, v)" by (cases kv)
  obtain stop err acc' s' where vis: "peersVisit x now k v acc s = ((stop, err), acc', s')"
    by (metis surj_pair)
  with peersVisit_store [of x now k v acc s] have "s' = s" by simp
  with vis kv Cons.IH [of acc'] show ?case
    by (cases err) simp_all
qed

lemma peersVisit_live:
  assumes "prefix keyPrefix k" and "unmarshalKey x k = Inr addr"
    and "fst (get x k s) = (t, d, None)"
  shows "peersVisit x now k v acc s =
    ((False, None), (if Sub now t > d \<and> d \<noteq> 0 then acc else acc @ [\<lparr> Address = addr \<rparr>]), s)"
proof -
  from assms(3) get_store [of x k s] have "get x k s = ((t, d, None), s)"
    by (cases "get x k s") simp
  with assms(1,2) show ?thesis by (simp add: peersVisit_def)
qed

lemma peersVisit_error_iff:
  assumes "prefix keyPrefix k"
  shows "fst (peersVisit x now k v acc s) = (stop, Some err) \<longleftrightarrow>
    stop \<and> (unmarshalKey x k = Inl err \<or>
      (\<exists>addr t d. unmarshalKey x k = Inr addr \<and> fst (get x k s) = (t, d, Some err)))"
proof (cases "get x k s")
  case (Pair r s')
  obtain t d e where r: "r = (t, d, e)" by (cases r)
  from Pair r assms show ?thesis
    by (cases "unmarshalKey x k"; cases e) (auto simp: peersVisit_def)
qed

lemma iterateLoop_peersVisit_ok:
  assumes "\<forall>(k, v) \<in> set kvs. prefix keyPrefix k"
    and "iterateLoop (peersVisit x now) kvs acc s = (None, acc', s')"
  shows "(\<forall>(k, v) \<in> set kvs. (\<exists>addr. unmarshalKey x k = Inr addr) \<and>
           (\<exists>t d. fst (get x k s) = (t, d, None))) \<and>
    map (\<lambda>p. Inr (Address p)) acc' =
      map (\<lambda>p. Inr (Address p)) acc @
      map (\<lambda>(k, v). unmarshalKey x k)
        (filter (\<lambda>(k, v). case fst (get x k s) of (t, d, err) \<Rightarrow> \<not> (Sub now t > d \<and> d \<noteq> 0)) kvs)"
  using assms
proof (induction kvs arbitrary: acc)
  case Nil
  then show ?case by simp
next
  case (Cons kv kvs)
  obtain k v where kv: "kv = (k, v)" by (cases kv)
  with Cons.prems(1) have pk: "prefix keyPrefix k" and rest: "\<forall>(k, v) \<in> set kvs. prefix keyPrefix k"
    by simp_all
  obtain stop err acc1 s1 where vis: "peersVisit x now k v acc s = ((stop, err), acc1, s1)"
    by (metis surj_pair)
  with peersVisit_store [of x now k v acc s] have s1: "s1 = s" by simp
  from Cons.prems(2) kv vis have noerr: "err = None"
    by (cases err) simp_all
  have parsed: "\<exists>addr. unmarshalKey x k = Inr addr"
    using vis noerr pk by (cases "unmarshalKey x k") (auto simp: peersVisit_def)
  then obtain addr where addr: "unmarshalKey x k = Inr addr" ..
  obtain t d e where g: "fst (get x k s) = (t, d, e)" by (metis surj_pair)
  have e: "e = None"
  proof (cases e)
    case (Some err')
    with g get_store [of x k s] have "get x k s = ((t, d, Some err'), s)"
      by (cases "get x k s") simp
    with pk addr vis noerr show ?thesis by (simp add: peersVisit_def)
  qed simp
  from peersVisit_live [OF pk addr g [unfolded e], of now v acc] vis
  have stop: "stop = False"
    and acc1: "acc1 = (if Sub now t > d \<and> d \<noteq> 0 then acc else acc @ [\<lparr> Address = addr \<rparr>])"
    by simp_all
  from Cons.prems(2) kv vis noerr stop s1
  have "iterateLoop (peersVisit x now) kvs acc1 s = (None, acc', s')" by simp
  from Cons.IH [OF rest this] kv addr g e acc1 show ?case
    by auto
qed

lemma iterateLoop_peersVisit_error:
  assumes "\<forall>(k, v) \<in> set kvs. prefix keyPrefix k"
    and "iterateLoop (peersVisit x now) kvs acc s = (Some e, acc', s')"
  shows "\<exists>(k, v) \<in> set kvs. unmarshalKey x k = Inl e \<or> (\<exists>t d. fst (get x k s) = (t, d, Some e))"
  using assms
proof (induction kvs arbitrary: acc)
  case Nil
  then show ?case by simp
next
  case (Cons kv kvs)
  obtain k v where kv: "kv = (k, v)" by (cases kv)
  with Cons.prems(1) have pk: "prefix keyPrefix k" and rest: "\<forall>(k, v) \<in> set kvs. prefix keyPrefix k"
    by simp_all
  obtain stop err acc1 s1 where vis: "peersVisit x now k v acc s = ((stop, err), acc1, s1)"
    by (metis surj_pair)
  with peersVisit_store [of x now k v acc s] have s1: "s1 = s" by simp
  show ?case
  proof (cases err)
    case (Some e')
    with Cons.prems(2) kv vis have "e' = e" by simp
    with vis Some have "fst (peersVisit x now k v acc s) = (stop, Some e)" by simp
    with peersVisit_error_iff [OF pk, of x now v acc s stop e] kv show ?thesis by auto
  next
    case None
    from vis None pk have "stop = False"
      by (auto simp: peersVisit_def split: sum.splits prod.splits option.splits if_splits)
    with Cons.prems(2) kv vis None s1
    have "iterateLoop (peersVisit x now) kvs acc1 s = (Some e, acc', s')" by simp
    from Cons.IH [OF rest this] show ?thesis by auto
  qed
qed

text \<open>The two outcomes of \<open>Peers\<close>, in terms of the loop over the prefixed entries.\<close>

lemma Peers_Inr:
  "fst (Peers x now s) = Inr ps \<longleftrightarrow>
   iterateErr s = None \<and>
   (\<exists>s'. iterateLoop (peersVisit x now) (filter (\<lambda>(k, v). prefix keyPrefix k) (items s)) [] s
      = (None, ps, s'))"
proof -
  let ?kvs = "filter (\<lambda>(k, v). prefix keyPrefix k) (items s)"
  obtain r acc s' where loop: "iterateLoop (peersVisit x now) ?kvs [] s = (r, acc, s')"
    by (metis surj_pair)
  with iterateLoop_peersVisit_store [of x now ?kvs "[]" s] have "s' = s" by simp
  with loop show ?thesis
    by (cases r; cases "iterateErr s") (auto simp: Peers_def Iterate_def)
qed

lemma Peers_Inl:
  "fst (Peers x now s) = Inl e \<longleftrightarrow>
   (\<exists>acc' s'. iterateLoop (peersVisit x now) (filter (\<lambda>(k, v). prefix keyPrefix k) (items s)) [] s
      = (Some e, acc', s')) \<or>
   (iterateErr s = Some e \<and>
    (\<exists>acc' s'. iterateLoop (peersVisit x now) (filter (\<lambda>(k, v). prefix keyPrefix k) (items s)) [] s
      = (None, acc', s')))"
proof -
  let ?kvs = "filter (\<lambda>(k, v). prefix keyPrefix k) (items s)"
  obtain r acc s' where loop: "iterateLoop (peersVisit x now) ?kvs [] s = (r, acc, s')"
    by (metis surj_pair)
  with iterateLoop_peersVisit_store [of x now ?kvs "[]" s] have "s' = s" by simp
  with loop show ?thesis
    by (cases r; cases "iterateErr s") (auto simp: Peers_def Iterate_def)
qed

text \<open>
  Claim C3. With \<open>key\<close> the key of the address and a store whose \<open>Get\<close> does not
  fail: \<open>Exists\<close> returns false and no error when no entry is stored; returns false
  and no error and calls \<open>Delete\<close> on the key (after which, \<open>Delete\<close> succeeding,
  no entry is stored) when the stored duration is not zero and \<open>now\<close> minus the
  stored timestamp exceeds it; and returns true, leaving the store alone, when the
  duration is zero or the elapsed time is within it.
\<close>

theorem Exists_by_entry:
  assumes "key = generateKey x overlay" and "getErr s key = None"
  shows "(map_of (items s) key = None \<longrightarrow> Exists x now overlay s = ((False, None), s)) \<and>
   (map_of (items s) key = Some e \<and> ParseDuration x (Duration e) = Inr d \<longrightarrow>
      (d \<noteq> 0 \<and> Sub now (Timestamp e) > d \<longrightarrow>
         Exists x now overlay s = ((False, None), snd (Delete key s)) \<and>
         (deleteErr s key = None \<longrightarrow> map_of (items (snd (Exists x now overlay s))) key = None)) \<and>
      (d = 0 \<or> Sub now (Timestamp e) \<le> d \<longrightarrow>
         Exists x now overlay s = ((True, None), s)))"
proof (intro conjI impI)
  assume "map_of (items s) key = None"
  with assms show "Exists x now overlay s = ((False, None), s)"
    by (simp add: Exists_def get_missing)
next
  assume "map_of (items s) key = Some e \<and> ParseDuration x (Duration e) = Inr d"
  with assms have g: "get x (generateKey x overlay) s = ((Timestamp e, d, None), s)"
    by (simp add: get_found)
  {
    assume "d \<noteq> 0 \<and> Sub now (Timestamp e) > d"
    with g assms(1) show ex: "Exists x now overlay s = ((False, None), snd (Delete key s))"
      by (simp add: Exists_def split: prod.splits)
    assume "deleteErr s key = None"
    with ex show "map_of (items (snd (Exists x now overlay s))) key = None"
      by (simp add: Delete_removes)
  }
  {
    assume "d = 0 \<or> Sub now (Timestamp e) \<le> d"
    with g show "Exists x now overlay s = ((True, None), s)"
      by (auto simp: Exists_def)
  }
qed

theorem Exists_by_entry_witness:
  "''blocklist-ab'' = generateKey exampleExt [0xab] \<and>
   getErr exampleStore ''blocklist-ab'' = None \<and>
   map_of (items exampleStore) ''blocklist-ab'' = Some \<lparr> Timestamp = 100, Duration = ''10ns'' \<rparr> \<and>
   ParseDuration exampleExt ''10ns'' = Inr 10 \<and>
   Sub 105 100 \<le> (10 :: int) \<and>
   Exists exampleExt 105 [0xab] exampleStore = ((True, None), exampleStore) \<and>
   Sub 111 100 > (10 :: int) \<and>
   Exists exampleExt 111 [0xab] exampleStore =
     ((False, None),
      exampleStore\<lparr>items := [(''blocklist-cd'', \<lparr> Timestamp = 100, Duration = ''20ns'' \<rparr>)]\<rparr>) \<and>
   map_of (items emptyStore) ''blocklist-ab'' = None \<and>
   Exists exampleExt 111 [0xab] emptyStore = ((False, None), emptyStore)"
  using Exists_by_entry [where key = "''blocklist-ab''" and x = exampleExt and overlay = "[0xab]"
      and s = exampleStore and e = "\<lparr> Timestamp = 100, Duration = ''10ns'' \<rparr>" and d = 10
      and now = 105]
    Exists_by_entry [where key = "''blocklist-ab''" and x = exampleExt and overlay = "[0xab]"
      and s = exampleStore and e = "\<lparr> Timestamp = 100, Duration = ''10ns'' \<rparr>" and d = 10
      and now = 111]
    Exists_by_entry [where key = "''blocklist-ab''" and x = exampleExt and overlay = "[0xab]"
      and s = emptyStore and e = "\<lparr> Timestamp = 100, Duration = ''10ns'' \<rparr>" and d = 10
      and now = 111]
  by (simp add: exampleExt_def exampleStore_def emptyStore_def generateKey_def keyPrefix_def
      Delete_def Sub_def minDuration_def maxDuration_def)

text \<open>
  Claim C2, as stated: for every requested duration, \<open>Add\<close> stores the requested
  duration when there is no prior entry. On a lookup miss \<open>get\<close> returns the
  duration \<open>-1\<close>, which \<open>Add\<close> compares with the request as if it were an existing
  duration: with an empty store and a request of \<open>-5\<close> ns the stored duration is
  \<open>-1\<close> ns.
\<close>

theorem Add_negative_duration_counterexample:
  "map_of (items emptyStore) (generateKey exampleExt [0xab]) = None \<and>
   Add exampleExt 100 [0xab] (- 5) emptyStore =
     (None, emptyStore\<lparr>items := [(''blocklist-ab'', \<lparr> Timestamp = 100, Duration = ''-1ns'' \<rparr>)]\<rparr>) \<and>
   DurationString exampleExt (- 1) = ''-1ns'' \<and> DurationString exampleExt (- 5) = ''-5ns''"
  by (simp add: exampleExt_def emptyStore_def Add_def get_def Get_def Put_def generateKey_def
      keyPrefix_def Let_def)

text \<open>
  Claim C2, amended. With \<open>key\<close> the key of the address and a store whose
  \<open>Get\<close> and \<open>Put\<close> do not fail on it, \<open>Add\<close> stores under \<open>key\<close> an entry
  with the current time as timestamp and, as duration (in the text form of
  \<^verbatim>\<open>Duration.String\<close>): the existing duration when that is zero, or when the
  requested duration is not zero and strictly less than the existing one, and the
  requested duration otherwise; with no prior entry, the requested duration, provided
  it is not below \<open>-1\<close> ns (every duration that is not negative qualifies).
\<close>

theorem Add_stores_longer:
  assumes "key = generateKey x overlay" and "getErr s key = None" and "putErr s key = None"
  shows "(map_of (items s) key = Some e \<and> ParseDuration x (Duration e) = Inr d \<longrightarrow>
      fst (Add x now overlay duration s) = None \<and>
      map_of (items (snd (Add x now overlay duration s))) key =
        Some \<lparr> Timestamp = now,
               Duration = DurationString x
                 (if d = 0 \<or> (duration \<noteq> 0 \<and> duration < d) then d else duration) \<rparr>) \<and>
   (map_of (items s) key = None \<and> - 1 \<le> duration \<longrightarrow>
      fst (Add x now overlay duration s) = None \<and>
      map_of (items (snd (Add x now overlay duration s))) key =
        Some \<lparr> Timestamp = now, Duration = DurationString x duration \<rparr>)"
proof (intro conjI impI)
  assume "map_of (items s) key = Some e \<and> ParseDuration x (Duration e) = Inr d"
  with assms have "get x (generateKey x overlay) s = ((Timestamp e, d, None), s)"
    by (simp add: get_found)
  with assms(1) have add: "Add x now overlay duration s =
        Put key
          \<lparr> Timestamp = now,
            Duration = DurationString x
              (if d = 0 \<or> (duration \<noteq> 0 \<and> duration < d) then d else duration) \<rparr> s"
    by (auto simp: Add_def Let_def)
  from add assms(3) show "fst (Add x now overlay duration s) = None"
    by (simp add: Put_stores)
  from add assms(3) show "map_of (items (snd (Add x now overlay duration s))) key =
        Some \<lparr> Timestamp = now,
               Duration = DurationString x
                 (if d = 0 \<or> (duration \<noteq> 0 \<and> duration < d) then d else duration) \<rparr>"
    by (simp add: Put_stores)
next
  assume "map_of (items s) key = None \<and> - 1 \<le> duration"
  with assms have "get x (generateKey x overlay) s = ((0, - 1, Some ErrNotFound), s)"
    and "- 1 \<le> duration"
    by (simp_all add: get_missing)
  with assms(1) have add: "Add x now overlay duration s =
        Put key \<lparr> Timestamp = now, Duration = DurationString x duration \<rparr> s"
    by (auto simp: Add_def Let_def)
  from add assms(3) show "fst (Add x now overlay duration s) = None"
    by (simp add: Put_stores)
  from add assms(3) show "map_of (items (snd (Add x now overlay duration s))) key =
        Some \<lparr> Timestamp = now, Duration = DurationString x duration \<rparr>"
    by (simp add: Put_stores)
qed

theorem Add_stores_longer_witness:
  "''blocklist-cd'' = generateKey exampleExt [0xcd] \<and>
   getErr exampleStore ''blocklist-cd'' = None \<and> putErr exampleStore ''blocklist-cd'' = None \<and>
   map_of (items exampleStore) ''blocklist-cd'' = Some \<lparr> Timestamp = 100, Duration = ''20ns'' \<rparr> \<and>
   ParseDuration exampleExt ''20ns'' = Inr 20 \<and>
   map_of (items (snd (Add exampleExt 150 [0xcd] 10 exampleStore))) ''blocklist-cd'' =
     Some \<lparr> Timestamp = 150, Duration = ''20ns'' \<rparr> \<and>
   map_of (items (snd (Add exampleExt 150 [0xcd] 0 exampleStore))) ''blocklist-cd'' =
     Some \<lparr> Timestamp = 150, Duration = ''0s'' \<rparr> \<and>
   map_of (items emptyStore) ''blocklist-cd'' = None \<and>
   map_of (items (snd (Add exampleExt 150 [0xcd] 10 emptyStore))) ''blocklist-cd'' =
     Some \<lparr> Timestamp = 150, Duration = ''10ns'' \<rparr>"
  using Add_stores_longer [where key = "''blocklist-cd''" and x = exampleExt and overlay = "[0xcd]"
      and s = exampleStore and e = "\<lparr> Timestamp = 100, Duration = ''20ns'' \<rparr>" and d = 20
      and now = 150 and duration = 10]
    Add_stores_longer [where key = "''blocklist-cd''" and x = exampleExt and overlay = "[0xcd]"
      and s = exampleStore and e = "\<lparr> Timestamp = 100, Duration = ''20ns'' \<rparr>" and d = 20
      and now = 150 and duration = 0]
    Add_stores_longer [where key = "''blocklist-cd''" and x = exampleExt and overlay = "[0xcd]"
      and s = emptyStore and e = "\<lparr> Timestamp = 100, Duration = ''20ns'' \<rparr>" and d = 20
      and now = 150 and duration = 10]
  by (simp add: exampleExt_def exampleStore_def emptyStore_def generateKey_def keyPrefix_def)

text \<open>
  Claim C8. \<open>Peers\<close> leaves the store as it was: it deletes nothing. When it
  succeeds, the addresses it returns are, in the order of the store, the parsed keys
  of exactly those stored entries (under the blocklist prefix) that are not expired
  by the rule of \<open>Exists\<close>; an entry whose duration is not zero and has elapsed
  contributes no peer. It succeeds whenever iterating, parsing the keys and reading
  the entries raise no error.
\<close>

theorem Peers_excludes_expired:
  "snd (Peers x now s) = s \<and>
   (fst (Peers x now s) = Inr ps \<longrightarrow>
      map (\<lambda>p. Inr (Address p)) ps =
        map (\<lambda>(k, v). unmarshalKey x k)
          (filter (\<lambda>(k, v). case fst (get x k s) of (t, d, err) \<Rightarrow> \<not> (Sub now t > d \<and> d \<noteq> 0))
            (filter (\<lambda>(k, v). prefix keyPrefix k) (items s)))) \<and>
   (iterateErr s = None \<and>
    (\<forall>(k, v) \<in> set (items s). prefix keyPrefix k \<longrightarrow>
       (\<exists>addr. unmarshalKey x k = Inr addr) \<and> (\<exists>t d. fst (get x k s) = (t, d, None))) \<longrightarrow>
      (\<exists>ps. fst (Peers x now s) = Inr ps))"
proof (intro conjI impI)
  let ?kvs = "filter (\<lambda>(k, v). prefix keyPrefix k) (items s)"
  have pre: "\<forall>(k, v) \<in> set ?kvs. prefix keyPrefix k" by auto
  show "snd (Peers x now s) = s"
    using iterateLoop_peersVisit_store [of x now ?kvs "[]" s]
    by (auto simp: Peers_def Iterate_def split: option.splits prod.splits)
  {
    assume "fst (Peers x now s) = Inr ps"
    then obtain s' where "iterateLoop (peersVisit x now) ?kvs [] s = (None, ps, s')"
      by (auto simp: Peers_Inr)
    from iterateLoop_peersVisit_ok [OF pre this]
    show "map (\<lambda>p. Inr (Address p)) ps =
        map (\<lambda>(k, v). unmarshalKey x k)
          (filter (\<lambda>(k, v). case fst (get x k s) of (t, d, err) \<Rightarrow> \<not> (Sub now t > d \<and> d \<noteq> 0)) ?kvs)"
      by simp
  }
  {
    assume a: "iterateErr s = None \<and>
      (\<forall>(k, v) \<in> set (items s). prefix keyPrefix k \<longrightarrow>
         (\<exists>addr. unmarshalKey x k = Inr addr) \<and> (\<exists>t d. fst (get x k s) = (t, d, None)))"
    show "\<exists>ps. fst (Peers x now s) = Inr ps"
    proof (cases "fst (Peers x now s)")
      case (Inr ps)
      then show ?thesis by blast
    next
      case (Inl e)
      with a obtain acc' s' where "iterateLoop (peersVisit x now) ?kvs [] s = (Some e, acc', s')"
        by (auto simp: Peers_Inl)
      from iterateLoop_peersVisit_error [OF pre this] a show ?thesis
        by fastforce
    qed
  }
qed

theorem Peers_excludes_expired_witness:
  "fst (get exampleExt ''blocklist-ab'' exampleStore) = (100, 10, None) \<and>
   Sub 111 100 > (10 :: int) \<and>
   fst (get exampleExt ''blocklist-cd'' exampleStore) = (100, 20, None) \<and>
   Sub 111 100 \<le> (20 :: int) \<and>
   Peers exampleExt 111 exampleStore = (Inr [\<lparr> Address = [0xcd] \<rparr>], exampleStore) \<and>
   Peers exampleExt 105 exampleStore =
     (Inr [\<lparr> Address = [0xab] \<rparr>, \<lparr> Address = [0xcd] \<rparr>], exampleStore)"
  using Peers_excludes_expired [of exampleExt 111 exampleStore "[\<lparr> Address = [0xcd] \<rparr>]"]
    Peers_excludes_expired [of exampleExt 105 exampleStore
      "[\<lparr> Address = [0xab] \<rparr>, \<lparr> Address = [0xcd] \<rparr>]"]
  by (simp add: exampleExt_def exampleStore_def emptyStore_def Peers_def Iterate_def
      peersVisit_def unmarshalKey_def keyPrefix_def get_def Get_def Sub_def minDuration_def
      maxDuration_def)

text \<open>
  Claim C9, as stated: no store error is discarded, delete failures included.
  \<open>Exists\<close> drops the result of \<open>Delete\<close> (\<^verbatim>\<open>_ = b.store.Delete(key)\<close>): on a store
  whose \<open>Delete\<close> fails, with an expired entry, it returns false and no error, and
  the entry stays.
\<close>

theorem Exists_discards_Delete_error_counterexample:
  "Delete ''blocklist-ab'' (exampleStore\<lparr>deleteErr := diskFailure\<rparr>) =
     (Some (ErrOther ''disk failure''), exampleStore\<lparr>deleteErr := diskFailure\<rparr>) \<and>
   Exists exampleExt 111 [0xab] (exampleStore\<lparr>deleteErr := diskFailure\<rparr>) =
     ((False, None), exampleStore\<lparr>deleteErr := diskFailure\<rparr>)"
  by (simp add: exampleExt_def exampleStore_def emptyStore_def diskFailure_def Exists_def
      get_def Get_def Delete_def generateKey_def keyPrefix_def Sub_def minDuration_def
      maxDuration_def)

text \<open>
  Claim C9, amended. Every failure of reading an entry (the store's \<open>Get\<close> other
  than not-found, or the decoding of the duration), of \<open>Put\<close> and of \<open>Iterate\<close>
  reaches the caller unchanged: \<open>Exists\<close> and \<open>Add\<close> return the error of \<open>get\<close>
  unless it is not-found; otherwise \<open>Add\<close> returns whatever \<open>Put\<close> reports;
  \<open>Peers\<close> succeeds only if \<open>Iterate\<close> did not fail, no key failed to parse and no
  entry failed to be read, and an error it returns is one of those. The one store
  result that is dropped is that of \<open>Delete\<close> in \<open>Exists\<close>, which returns false and
  no error for an expired entry whether \<open>Delete\<close> failed or not.
\<close>

theorem store_errors_propagated:
  assumes "key = generateKey x overlay"
  shows "(\<forall>t d e. fst (get x key s) = (t, d, Some e) \<and> e \<noteq> ErrNotFound \<longrightarrow>
       fst (Exists x now overlay s) = (False, Some e) \<and>
       fst (Add x now overlay duration s) = Some e) \<and>
   ((\<forall>t d e. fst (get x key s) = (t, d, Some e) \<longrightarrow> e = ErrNotFound) \<longrightarrow>
       fst (Add x now overlay duration s) = putErr s key) \<and>
   (\<forall>ps. fst (Peers x now s) = Inr ps \<longrightarrow>
       iterateErr s = None \<and>
       (\<forall>(k, v) \<in> set (items s). prefix keyPrefix k \<longrightarrow>
          (\<exists>addr. unmarshalKey x k = Inr addr) \<and> (\<exists>t d. fst (get x k s) = (t, d, None)))) \<and>
   (\<forall>e. fst (Peers x now s) = Inl e \<longrightarrow>
       iterateErr s = Some e \<or>
       (\<exists>(k, v) \<in> set (items s). prefix keyPrefix k \<and>
          (unmarshalKey x k = Inl e \<or> (\<exists>t d. fst (get x k s) = (t, d, Some e))))) \<and>
   (\<forall>t d. fst (get x key s) = (t, d, None) \<and> Sub now t > d \<and> d \<noteq> 0 \<longrightarrow>
       fst (Exists x now overlay s) = (False, None))"
proof (intro conjI allI impI)
  let ?kvs = "filter (\<lambda>(k, v). prefix keyPrefix k) (items s)"
  have pre: "\<forall>(k, v) \<in> set ?kvs. prefix keyPrefix k" by auto
  have get: "get x key s = (fst (get x key s), s)"
    using get_store [of x key s] by (cases "get x key s") simp
  {
    fix t d e
    assume "fst (get x key s) = (t, d, Some e) \<and> e \<noteq> ErrNotFound"
    with get have g: "get x (generateKey x overlay) s = ((t, d, Some e), s)" and e: "e \<noteq> ErrNotFound"
      using assms by simp_all
    from g e show "fst (Exists x now overlay s) = (False, Some e)"
      by (simp add: Exists_def)
    from g e show "fst (Add x now overlay duration s) = Some e"
      by (simp add: Add_def)
  }
  {
    assume nf: "\<forall>t d e. fst (get x key s) = (t, d, Some e) \<longrightarrow> e = ErrNotFound"
    obtain t d err where g: "fst (get x key s) = (t, d, err)" by (metis surj_pair)
    with nf have "err = None \<or> err = Some ErrNotFound" by (cases err) auto
    moreover from g get assms have "get x (generateKey x overlay) s = ((t, d, err), s)" by simp
    ultimately show "fst (Add x now overlay duration s) = putErr s key"
      using assms by (auto simp: Add_def Put_def Let_def split: option.splits)
  }
  {
    fix ps assume ok: "fst (Peers x now s) = Inr ps"
    then show "iterateErr s = None" by (simp add: Peers_Inr)
    from ok obtain s' where "iterateLoop (peersVisit x now) ?kvs [] s = (None, ps, s')"
      by (auto simp: Peers_Inr)
    from iterateLoop_peersVisit_ok [OF pre this]
    show "\<forall>(k, v) \<in> set (items s). prefix keyPrefix k \<longrightarrow>
          (\<exists>addr. unmarshalKey x k = Inr addr) \<and> (\<exists>t d. fst (get x k s) = (t, d, None))"
      by auto
  }
  {
    fix e assume err: "fst (Peers x now s) = Inl e"
    show "iterateErr s = Some e \<or>
       (\<exists>(k, v) \<in> set (items s). prefix keyPrefix k \<and>
          (unmarshalKey x k = Inl e \<or> (\<exists>t d. fst (get x k s) = (t, d, Some e))))"
    proof (cases "iterateErr s = Some e")
      case False
      with err obtain acc' s' where "iterateLoop (peersVisit x now) ?kvs [] s = (Some e, acc', s')"
        by (auto simp: Peers_Inl)
      from iterateLoop_peersVisit_error [OF pre this] show ?thesis by auto
    qed simp
  }
  {
    fix t d
    assume "fst (get x key s) = (t, d, None) \<and> Sub now t > d \<and> d \<noteq> 0"
    with get assms have "get x (generateKey x overlay) s = ((t, d, None), s)"
      and "Sub now t > d" and "d \<noteq> 0" by simp_all
    then show "fst (Exists x now overlay s) = (False, None)"
      by (simp add: Exists_def split: prod.splits)
  }
qed

theorem store_errors_propagated_witness:
  "fst (get exampleExt ''blocklist-ab'' (exampleStore\<lparr>getErr := diskFailure\<rparr>)) =
     (0, - 1, Some (ErrOther ''disk failure'')) \<and>
   fst (Exists exampleExt 105 [0xab] (exampleStore\<lparr>getErr := diskFailure\<rparr>)) =
     (False, Some (ErrOther ''disk failure'')) \<and>
   fst (Add exampleExt 105 [0xab] 10 (exampleStore\<lparr>getErr := diskFailure\<rparr>)) =
     Some (ErrOther ''disk failure'') \<and>
   fst (get exampleExt ''blocklist-ab''
          (emptyStore\<lparr>items := [(''blocklist-ab'', \<lparr> Timestamp = 100, Duration = ''soon'' \<rparr>)]\<rparr>)) =
     (0, - 1, Some (ErrOther ''time: invalid duration'')) \<and>
   fst (Exists exampleExt 105 [0xab]
          (emptyStore\<lparr>items := [(''blocklist-ab'', \<lparr> Timestamp = 100, Duration = ''soon'' \<rparr>)]\<rparr>)) =
     (False, Some (ErrOther ''time: invalid duration'')) \<and>
   fst (Peers exampleExt 105
          (emptyStore\<lparr>items := [(''blocklist-ab'', \<lparr> Timestamp = 100, Duration = ''soon'' \<rparr>)]\<rparr>)) =
     Inl (ErrOther ''time: invalid duration'') \<and>
   fst (Add exampleExt 105 [0xab] 10 (exampleStore\<lparr>putErr := diskFailure\<rparr>)) =
     Some (ErrOther ''disk failure'') \<and>
   fst (Peers exampleExt 105 (exampleStore\<lparr>iterateErr := Some (ErrOther ''disk failure'')\<rparr>)) =
     Inl (ErrOther ''disk failure'') \<and>
   fst (Peers exampleExt 105 exampleStore) = Inr [\<lparr> Address = [0xab] \<rparr>, \<lparr> Address = [0xcd] \<rparr>] \<and>
   fst (Exists exampleExt 111 [0xab] (exampleStore\<lparr>deleteErr := diskFailure\<rparr>)) = (False, None)"
  using store_errors_propagated [where key = "''blocklist-ab''" and x = exampleExt
      and overlay = "[0xab]" and s = "exampleStore\<lparr>getErr := diskFailure\<rparr>" and now = 105
      and duration = 10]
    store_errors_propagated [where key = "''blocklist-ab''" and x = exampleExt
      and overlay = "[0xab]" and now = 105 and duration = 10
      and s = "emptyStore\<lparr>items := [(''blocklist-ab'', \<lparr> Timestamp = 100, Duration = ''soon'' \<rparr>)]\<rparr>"]
    store_errors_propagated [where key = "''blocklist-ab''" and x = exampleExt
      and overlay = "[0xab]" and s = "exampleStore\<lparr>putErr := diskFailure\<rparr>" and now = 105
      and duration = 10]
    store_errors_propagated [where key = "''blocklist-ab''" and x = exampleExt
      and overlay = "[0xab]" and now = 105 and duration = 10
      and s = "exampleStore\<lparr>iterateErr := Some (ErrOther ''disk failure'')\<rparr>"]
    store_errors_propagated [where key = "''blocklist-ab''" and x = exampleExt
      and overlay = "[0xab]" and s = exampleStore and now = 105 and duration = 10]
    store_errors_propagated [where key = "''blocklist-ab''" and x = exampleExt
      and overlay = "[0xab]" and s = "exampleStore\<lparr>deleteErr := diskFailure\<rparr>" and now = 111
      and duration = 10]
  by (simp add: exampleExt_def exampleStore_def emptyStore_def diskFailure_def Peers_def
      Iterate_def peersVisit_def unmarshalKey_def Exists_def Add_def Put_def Delete_def
      generateKey_def keyPrefix_def get_def Get_def Sub_def minDuration_def maxDuration_def
      Let_def)
end
